theory Spec2Isabelle
  imports Main "HOL-Library.AList" "HOL-Library.Sublist"
begin

section \<open>JavaScript values used by error.js\<close>

text \<open>
  Numbers are the integers together with NaN and the two infinities; fractional values are
  outside this model.
\<close>

datatype jsnum = NaN | Fin int | PInf | NInf

text \<open>
  The values the module handles.  Functions are told apart by identity: the module's own
  \<open>noop\<close> and \<open>rootFactory\<close> (both reachable by callers through
  \<open>prototype.CustomError.factory\<close>), a caller's ordinary function \<open>VUser k\<close>,
  the host's \<open>Error\<close> constructor, and a constructor built by \<open>CustomError\<close>,
  which is identified with \<open>prototype.CustomError.chain\<close> (its own descriptor first,
  the root's last).  \<open>VArrow k\<close> is a function that has no \<open>prototype\<close> property (an arrow
  function, a bound, async or built-in function).  A descriptor is the object stored at
  \<open>prototype.CustomError\<close>; its cyclic \<open>chain\<close> field is the list carried by the
  constructor.
\<close>

datatype jsval =
    VUndefined
  | VNull
  | VBool bool
  | VNum jsnum
  | VStr string
  | VObj "(string \<times> jsval) list"
  | VNoop
  | VRootFactory
  | VUser nat
  | VArrow nat
  | VError
  | VCtor "descriptor list"
and descriptor =
    Descriptor (factory: jsval) (name: jsval) (parent: jsval) (properties: jsval)

datatype jstype = TUndefined | TObject | TBoolean | TNumber | TString | TFunction

fun js_typeof :: "jsval \<Rightarrow> jstype" where
  "js_typeof VUndefined = TUndefined"
| "js_typeof VNull = TObject"
| "js_typeof (VBool b) = TBoolean"
| "js_typeof (VNum n) = TNumber"
| "js_typeof (VStr s) = TString"
| "js_typeof (VObj kvs) = TObject"
| "js_typeof VNoop = TFunction"
| "js_typeof VRootFactory = TFunction"
| "js_typeof (VUser k) = TFunction"
| "js_typeof (VArrow k) = TFunction"
| "js_typeof VError = TFunction"
| "js_typeof (VCtor ch) = TFunction"

text \<open>ToBoolean: \<open>undefined\<close>, \<open>null\<close>, \<open>false\<close>, \<open>0\<close>, \<open>NaN\<close>
  and the empty string are falsy.\<close>

fun js_truthy :: "jsval \<Rightarrow> bool" where
  "js_truthy VUndefined = False"
| "js_truthy VNull = False"
| "js_truthy (VBool b) = b"
| "js_truthy (VNum NaN) = False"
| "js_truthy (VNum (Fin n)) = (n \<noteq> 0)"
| "js_truthy (VNum PInf) = True"
| "js_truthy (VNum NInf) = True"
| "js_truthy (VStr s) = (s \<noteq> [])"
| "js_truthy (VObj kvs) = True"
| "js_truthy VNoop = True"
| "js_truthy VRootFactory = True"
| "js_truthy (VUser k) = True"
| "js_truthy (VArrow k) = True"
| "js_truthy VError = True"
| "js_truthy (VCtor ch) = True"

datatype error = ArgumentOrderError | TypeError | HostError | ShadowedMember | PrototypeReplaced

text \<open>
  \<open>value.prototype.CustomError\<close> read as a condition: truthy exactly for a built
  constructor.  Where \<open>value.prototype\<close> is \<open>undefined\<close> (a function without a prototype,
  or a value that is no function) reading its member throws a TypeError.
\<close>

fun has_CustomError :: "jsval \<Rightarrow> error + bool" where
  "has_CustomError (VCtor ch) = Inr True"
| "has_CustomError VNoop = Inr False"
| "has_CustomError VRootFactory = Inr False"
| "has_CustomError (VUser k) = Inr False"
| "has_CustomError VError = Inr False"
| "has_CustomError v = Inl TypeError"

section \<open>The argument classifier\<close>

text \<open>The four predicates, lines 123 to 137, with the short-circuit of \<open>&&\<close> and \<open>||\<close>: the
  member of the prototype is read only for a function, in \<open>isFactoryArg\<close> only for one
  other than \<open>Error\<close>, in \<open>isParentArg\<close> only for one that is not \<open>Error\<close>.\<close>

definition isFactoryArg :: "jsval \<Rightarrow> error + bool" where
  "isFactoryArg v =
     (if js_typeof v = TFunction \<and> v \<noteq> VError then map_sum id Not (has_CustomError v)
      else Inr False)"

definition isNameArg :: "jsval \<Rightarrow> error + bool" where
  "isNameArg v = Inr (js_typeof v = TString)"

definition isParentArg :: "jsval \<Rightarrow> error + bool" where
  "isParentArg v =
     (if js_typeof v = TFunction then (if v = VError then Inr True else has_CustomError v)
      else Inr False)"

definition isPropertiesArg :: "jsval \<Rightarrow> error + bool" where
  "isPropertiesArg v = Inr (js_truthy v \<and> js_typeof v = TObject)"

text \<open>\<open>args[i]\<close>: reading past the end of \<open>arguments\<close> gives \<open>undefined\<close>.\<close>

definition arg_at :: "jsval list \<Rightarrow> nat \<Rightarrow> jsval" where
  "arg_at args i = (if i < length args then args ! i else VUndefined)"

text \<open>The inner loop of \<open>findArg\<close>, lines 110 to 112: every anti-filter is called, and a
  call that throws ends the loop.\<close>

definition anti_loop ::
  "(jsval \<Rightarrow> error + bool) list \<Rightarrow> jsval \<Rightarrow> nat \<Rightarrow> error + nat option" where
  "anti_loop antiFilters val i =
     fold (\<lambda>f r. case r of
                    Inl e \<Rightarrow> Inl e
                  | Inr anti \<Rightarrow> (case f val of
                                  Inl e \<Rightarrow> Inl e
                                | Inr b \<Rightarrow> Inr (if b then Some i else anti)))
       antiFilters (Inr None)"

text \<open>One round of the outer loop of \<open>findArg\<close>; \<open>None\<close> stands for \<open>-1\<close>.\<close>

definition findArg_step ::
  "jsval list \<Rightarrow> (jsval \<Rightarrow> error + bool) \<Rightarrow> (jsval \<Rightarrow> error + bool) list \<Rightarrow> nat \<Rightarrow>
   nat option \<times> nat option \<Rightarrow> error + nat option \<times> nat option" where
  "findArg_step args filter_fn antiFilters i st =
     (let val = arg_at args i
      in case (case fst st of
                 None \<Rightarrow> anti_loop antiFilters val i
               | Some a \<Rightarrow> Inr (Some a)) of
           Inl e \<Rightarrow> Inl e
         | Inr anti \<Rightarrow>
             (case snd st of
                None \<Rightarrow> (case filter_fn val of
                            Inl e \<Rightarrow> Inl e
                          | Inr b \<Rightarrow> Inr (anti, if b then Some i else None))
              | Some f \<Rightarrow> Inr (anti, Some f)))"

definition findArg ::
  "jsval list \<Rightarrow> nat \<Rightarrow> jsval \<Rightarrow> (jsval \<Rightarrow> error + bool) \<Rightarrow> (jsval \<Rightarrow> error + bool) list \<Rightarrow>
   error + jsval" where
  "findArg args index defaultValue filter_fn antiFilters =
     (let len = (if index < length args then index else length args)
      in case fold (\<lambda>i r. case r of
                               Inl e \<Rightarrow> Inl e
                             | Inr st \<Rightarrow> findArg_step args filter_fn antiFilters i st)
                [0..<Suc len] (Inr (None, None)) of
           Inl e \<Rightarrow> Inl e
         | Inr (Some anti, Some found) \<Rightarrow>
             if anti < found then Inl ArgumentOrderError else Inr (arg_at args found)
         | Inr (None, Some found) \<Rightarrow> Inr (arg_at args found)
         | Inr (_, None) \<Rightarrow> Inr defaultValue)"

section \<open>The error-type builder\<close>

text \<open>
  \<open>parent.prototype.CustomError\<close>: the descriptor a built constructor carries (the head of
  its chain).  Reading a member of \<open>undefined\<close> is a TypeError.
\<close>

fun proto_CustomError :: "jsval \<Rightarrow> error + descriptor" where
  "proto_CustomError (VCtor (d # ch)) = Inr d"
| "proto_CustomError v = Inl TypeError"

fun proto_chain :: "jsval \<Rightarrow> descriptor list" where
  "proto_chain (VCtor ch) = ch"
| "proto_chain v = []"

text \<open>
  \<open>CustomError(name, parent, properties, factory)\<close> applied to the list \<open>arguments\<close>.
  The four \<open>findArg\<close> calls run in the order of the source (parent, properties, factory,
  name); the default of the name is computed before its \<open>findArg\<close> call.  The result is
  the new constructor, that is the chain \<open>[own descriptor] @ parent's chain\<close>.
\<close>

definition CustomError :: "jsval list \<Rightarrow> error + jsval" where
  "CustomError args =
     (case findArg args 1 VError isParentArg [isPropertiesArg, isFactoryArg] of
        Inl e \<Rightarrow> Inl e
      | Inr parent_v \<Rightarrow>
     (case findArg args 2 (VObj []) isPropertiesArg [isFactoryArg] of
        Inl e \<Rightarrow> Inl e
      | Inr properties_v \<Rightarrow>
     (case findArg args 3 VNoop isFactoryArg [] of
        Inl e \<Rightarrow> Inl e
      | Inr factory_v \<Rightarrow>
     (case (if parent_v = VError then Inr (VStr ''Error'')
            else map_sum id name (proto_CustomError parent_v)) of
        Inl e \<Rightarrow> Inl e
      | Inr defaultName \<Rightarrow>
     (case findArg args 0 defaultName isNameArg [isParentArg, isPropertiesArg, isFactoryArg] of
        Inl e \<Rightarrow> Inl e
      | Inr name_v \<Rightarrow>
          (let isRoot = (parent_v = VError);
               factory_w = (if isRoot \<and> factory_v = VNoop then VRootFactory else factory_v);
               chain = (if isRoot then [] else proto_chain parent_v)
           in Inr (VCtor (Descriptor factory_w name_v parent_v properties_v # chain))))))))"

text \<open>The two constructors the module builds for itself when loaded (lines 3 and 4).\<close>

definition Err :: "error + jsval" where
  "Err = CustomError [VStr ''CustomError'']"

definition Err_order :: "error + jsval" where
  "Err_order =
     (case Err of
        Inl e \<Rightarrow> Inl e
      | Inr err \<Rightarrow>
          CustomError [err, VObj [(''message'', VStr ''Arguments out of order.''),
                                  (''code'', VStr ''EOARG'')]])"

section \<open>Instances, the process and the host\<close>

text \<open>
  An instance: its own data properties (in insertion order), the chain its prototype carries
  (\<open>this.CustomError.chain\<close>), and the closure of \<open>rootFactory\<close> once it has run: the
  variables \<open>code\<close>, \<open>messageStr\<close> and the array \<open>stack\<close>, and whether the accessors
  \<open>code\<close> and \<open>message\<close> are installed.
\<close>

record ErrorInstance =
  own :: "(string \<times> jsval) list"
  CustomError_chain :: "descriptor list"
  accessors :: bool
  code_var :: jsval
  messageStr :: jsval
  stack_var :: "string list"

text \<open>
  What a factory can read and write: the instance under construction, the merged properties
  object \<open>props\<close> and the process-wide \<open>Error.stackTraceLimit\<close>, which V8 documents as
  a number.  A call that throws leaves the state it reached, so a result is \<open>Inl (e, w)\<close>
  or \<open>Inr w\<close>.
\<close>

record world =
  inst :: ErrorInstance
  props :: "(string \<times> jsval) list"
  stackTraceLimit :: jsnum

text \<open>
  The host: \<open>capture lim frames\<close> is \<open>(new Error()).stack.split('\\n')\<close> evaluated under
  \<open>Error.stackTraceLimit = lim\<close> on the call stack \<open>frames\<close> (innermost first), which
  throws where the engine gives no string; \<open>coerce\<close> is the string conversion of the values
  whose conversion the engine or the caller's code gives (finite numbers, objects,
  functions); \<open>user k\<close> is the body of the caller's function \<open>VUser k\<close> called as a
  factory with \<open>(props, configuration)\<close>.  A factory is a transformer of the state above:
  it does not replace the members the instance inherits (\<open>this.CustomError\<close>,
  \<open>this.toString\<close>), which the loop of \<open>construct\<close> and \<open>updateStack\<close> read.
\<close>

record host =
  capture :: "jsnum \<Rightarrow> string list \<Rightarrow> error + string list"
  coerce :: "jsval \<Rightarrow> error + string"
  user :: "nat \<Rightarrow> jsval \<Rightarrow> world \<Rightarrow> (error \<times> world) + world"

fun js_isNaN :: "jsnum \<Rightarrow> bool" where
  "js_isNaN NaN = True"
| "js_isNaN n = False"

fun js_ge0 :: "jsnum \<Rightarrow> bool" where
  "js_ge0 NaN = False"
| "js_ge0 (Fin n) = (0 \<le> n)"
| "js_ge0 PInf = True"
| "js_ge0 NInf = False"

fun js_plus2 :: "jsnum \<Rightarrow> jsnum" where
  "js_plus2 NaN = NaN"
| "js_plus2 (Fin n) = Fin (n + 2)"
| "js_plus2 PInf = PInf"
| "js_plus2 NInf = NInf"

definition js_get :: "(string \<times> jsval) list \<Rightarrow> string \<Rightarrow> jsval" where
  "js_get obj key = (case map_of obj key of Some v \<Rightarrow> v | None \<Rightarrow> VUndefined)"

definition js_keys :: "(string \<times> jsval) list \<Rightarrow> string list" where
  "js_keys obj = remdups (map fst obj)"

definition js_or :: "jsval \<Rightarrow> jsval \<Rightarrow> jsval" where
  "js_or a b = (if js_truthy a then a else b)"

fun js_join :: "string list \<Rightarrow> string" where
  "js_join [] = []"
| "js_join [x] = x"
| "js_join (x # y # r) = x @ [CHR 0x0A] @ js_join (y # r)"

fun js_to_string :: "host \<Rightarrow> jsval \<Rightarrow> error + string" where
  "js_to_string h (VStr s) = Inr s"
| "js_to_string h VUndefined = Inr ''undefined''"
| "js_to_string h VNull = Inr ''null''"
| "js_to_string h (VBool b) = Inr (if b then ''true'' else ''false'')"
| "js_to_string h (VNum NaN) = Inr ''NaN''"
| "js_to_string h (VNum PInf) = Inr ''Infinity''"
| "js_to_string h (VNum NInf) = Inr ''-Infinity''"
| "js_to_string h v = coerce h v"

section \<open>toString and the accessors\<close>

text \<open>\<open>this.code\<close> and \<open>this.message\<close>: the accessor when installed, else the own data
  property, else what the prototype chain gives (\<open>Error.prototype.message\<close> is \<open>''\<close>).\<close>

definition get_code :: "ErrorInstance \<Rightarrow> jsval" where
  "get_code i = (if accessors i then code_var i else js_get (own i) ''code'')"

definition get_message :: "ErrorInstance \<Rightarrow> jsval" where
  "get_message i =
     (if accessors i then messageStr i
      else case map_of (own i) ''message'' of Some v \<Rightarrow> v | None \<Rightarrow> VStr [])"

text \<open>Lines 86 to 91.  The name of a built constructor is a string, so its conversion is
  the identity; an empty chain has no last element, and reading its name throws.\<close>

definition toString :: "host \<Rightarrow> ErrorInstance \<Rightarrow> error + string" where
  "toString h i =
     (case CustomError_chain i of
        [] \<Rightarrow> Inl HostError
      | d # ds \<Rightarrow>
     (case js_to_string h (name (last (d # ds))) of
        Inl e \<Rightarrow> Inl e
      | Inr result \<Rightarrow>
     (case (if js_truthy (get_code i)
            then map_sum id (\<lambda>c. result @ '' '' @ c) (js_to_string h (get_code i))
            else Inr result) of
        Inl e \<Rightarrow> Inl e
      | Inr result \<Rightarrow>
          (if js_truthy (get_message i)
           then map_sum id (\<lambda>m. result @ '': '' @ m) (js_to_string h (get_message i))
           else Inr result))))"

text \<open>\<open>updateStack\<close>, lines 205 to 208.\<close>

definition updateStack :: "host \<Rightarrow> ErrorInstance \<Rightarrow> error + ErrorInstance" where
  "updateStack h i =
     (case toString h i of
        Inl e \<Rightarrow> Inl e
      | Inr s \<Rightarrow>
          (let stack = (case stack_var i of [] \<Rightarrow> [s] | l # ls \<Rightarrow> s # ls)
           in Inr (i\<lparr>stack_var := stack,
                      own := AList.update ''stack'' (VStr (js_join stack)) (own i)\<rparr>)))"

text \<open>Assignments \<open>instance.code = v\<close> and \<open>instance.message = v\<close>: the setter when the
  accessors are installed (lines 184 to 187 and 196 to 199), else a plain data property.\<close>

definition set_code :: "host \<Rightarrow> jsval \<Rightarrow> ErrorInstance \<Rightarrow> error + ErrorInstance" where
  "set_code h v i =
     (if accessors i then updateStack h (i\<lparr>code_var := v\<rparr>)
      else Inr (i\<lparr>own := AList.update ''code'' v (own i)\<rparr>))"


section \<open>The root factory\<close>

text \<open>Line 150: anything but a non-null object is replaced by \<open>{}\<close>.\<close>

definition config_object :: "jsval \<Rightarrow> (string \<times> jsval) list" where
  "config_object configuration =
     (if \<not> js_truthy configuration \<or> js_typeof configuration \<noteq> TObject then []
      else case configuration of VObj kvs \<Rightarrow> kvs | _ \<Rightarrow> [])"

text \<open>Lines 151 to 154: the depth asked for, \<open>ambient\<close> being \<open>Error.stackTraceLimit\<close>.\<close>

definition config_stackLength :: "(string \<times> jsval) list \<Rightarrow> jsnum \<Rightarrow> jsnum" where
  "config_stackLength configuration ambient =
     (case map_of configuration ''stackLength'' of
        Some (VNum n) \<Rightarrow> if \<not> js_isNaN n \<and> js_ge0 n then n else ambient
      | _ \<Rightarrow> ambient)"

text \<open>
  Own properties of these names would replace the prototype's members that the module itself
  calls (\<open>this.toString\<close>, \<open>this.CustomError\<close>, \<open>configuration.hasOwnProperty\<close>);
  runs that create one leave the fragment modelled here and end in \<open>ShadowedMember\<close>.
\<close>

definition shadowing :: "string list" where
  "shadowing = [''toString'', ''CustomError'']"

text \<open>The body of the \<open>forEach\<close> callback, lines 158 to 167, on the triple
  \<open>(code, messageStr, own properties of this)\<close>.\<close>

definition copy_key ::
  "(string \<times> jsval) list \<Rightarrow> string \<Rightarrow> jsval \<times> jsval \<times> (string \<times> jsval) list \<Rightarrow>
   error + jsval \<times> jsval \<times> (string \<times> jsval) list" where
  "copy_key properties_v key st =
     (case st of (code, message_s, own_v) \<Rightarrow>
        if key = ''code'' then Inr (js_or (js_get properties_v ''code'') VUndefined, message_s, own_v)
        else if key = ''message'' then Inr (code, js_or (js_get properties_v ''message'') (VStr []), own_v)
        else if key \<in> set shadowing then Inl ShadowedMember
        else Inr (code, message_s, AList.update key (js_get properties_v key) own_v))"

definition copy_properties ::
  "(string \<times> jsval) list \<Rightarrow> jsval \<times> jsval \<times> (string \<times> jsval) list \<Rightarrow>
   error + jsval \<times> jsval \<times> (string \<times> jsval) list" where
  "copy_properties properties_v st =
     fold (\<lambda>key r. case r of Inl e \<Rightarrow> Inl e | Inr st' \<Rightarrow> copy_key properties_v key st')
       (js_keys properties_v) (Inr st)"

definition frame_rootFactory :: string where
  "frame_rootFactory = ''    at rootFactory''"

definition frame_new_construct :: string where
  "frame_new_construct = ''    at new construct''"

definition frame_construct :: string where
  "frame_construct = ''    at construct''"

text \<open>
  \<open>rootFactory.call(this, properties, configuration)\<close>, lines 141 to 209, called on the
  stack \<open>frames\<close>.  \<open>properties\<close> is \<open>props w\<close> and \<open>this\<close> is \<open>inst w\<close>.  When the
  call throws, the result carries the process state at that point.
\<close>

definition rootFactory :: "host \<Rightarrow> string list \<Rightarrow> jsval \<Rightarrow> world \<Rightarrow> (error \<times> world) + world" where
  "rootFactory h frames configuration w =
     (let originalStackLength = stackTraceLimit w;
          cfg = config_object configuration
      in if ''hasOwnProperty'' \<in> set (js_keys cfg) then Inl (ShadowedMember, w)
         else
     (let stackLength = config_stackLength cfg (stackTraceLimit w)
      in case copy_properties (props w) (VUndefined, VStr [], own (inst w)) of
           Inl e \<Rightarrow> Inl (e, w)
         | Inr (code, message_s, own_v) \<Rightarrow>
     (let w1 = w\<lparr>inst := (inst w)\<lparr>own := own_v\<rparr>, stackTraceLimit := js_plus2 stackLength\<rparr>
      in case capture h (stackTraceLimit w1) (frame_rootFactory # frames) of
           Inl e \<Rightarrow> Inl (e, w1)
         | Inr lines \<Rightarrow>
     (let stack = [] # drop 3 lines;
          w2 = w1\<lparr>stackTraceLimit := originalStackLength\<rparr>;
          this1 = (inst w2)\<lparr>own := AList.update ''stack'' (VStr (js_join stack)) own_v,
                              stack_var := stack, code_var := code, messageStr := message_s,
                              accessors := True\<rparr>
      in case updateStack h this1 of
           Inl e \<Rightarrow> Inl (e, w2\<lparr>inst := this1\<rparr>)
         | Inr this2 \<Rightarrow> Inr (w2\<lparr>inst := this2\<rparr>)))))"

section \<open>Constructing an instance\<close>

text \<open>
  \<open>Object.assign\<close>: each own key of a source object is read and set on the target; sources
  that are not objects have no own enumerable keys here.  The keys are set, not defined:
  setting \<open>__proto__\<close> runs the setter the target inherits from \<open>Object.prototype\<close>, which
  replaces the target's prototype (for an object, a function or \<open>null\<close>) or does nothing
  (for any other value), and creates no own key.  The target is modelled by its own keys,
  under the prototype that \<open>{}\<close> has.
\<close>

definition assign_key ::
  "(string \<times> jsval) list \<Rightarrow> string \<Rightarrow> (string \<times> jsval) list \<Rightarrow> (string \<times> jsval) list" where
  "assign_key kvs key target =
     (if key = ''__proto__'' then target else AList.update key (js_get kvs key) target)"

definition assign_one :: "(string \<times> jsval) list \<Rightarrow> jsval \<Rightarrow> (string \<times> jsval) list" where
  "assign_one target source =
     (case source of
        VObj kvs \<Rightarrow> fold (assign_key kvs) (js_keys kvs) target
      | _ \<Rightarrow> target)"

definition Object_assign :: "(string \<times> jsval) list \<Rightarrow> jsval list \<Rightarrow> (string \<times> jsval) list" where
  "Object_assign target sources = fold (\<lambda>source t. assign_one t source) sources target"

text \<open>Lines 50 and 51.\<close>

definition message_object :: "jsval \<Rightarrow> jsval" where
  "message_object message =
     (let message = (if js_typeof message = TString then VObj [(''message'', message)] else message)
      in if \<not> js_truthy message then VObj [] else message)"

text \<open>
  Once a source has replaced the prototype of the target, what setting a later key does
  depends on the new prototype (under \<open>null\<close> the key \<open>__proto__\<close> becomes an own key,
  under a function the key \<open>name\<close> cannot be set).  Constructions with such a source leave
  the fragment modelled here and end in \<open>PrototypeReplaced\<close>.
\<close>

definition keeps_prototype :: "jsval \<Rightarrow> bool" where
  "keeps_prototype source =
     (case source of
        VObj kvs \<Rightarrow> js_typeof (js_get kvs ''__proto__'') \<notin> {TObject, TFunction}
      | _ \<Rightarrow> True)"

definition prototype_kept :: "descriptor list \<Rightarrow> jsval \<Rightarrow> bool" where
  "prototype_kept chain message =
     list_all keeps_prototype (map properties (rev chain) @ [message_object message])"

text \<open>Lines 54 to 57.\<close>

definition build_props :: "descriptor list \<Rightarrow> jsval \<Rightarrow> (string \<times> jsval) list" where
  "build_props chain message =
     (let ar = map properties (rev chain);
          ar = ar @ [message];
          ar = VObj [] # ar
      in Object_assign (case hd ar of VObj t \<Rightarrow> t | _ \<Rightarrow> []) (tl ar))"

text \<open>\<open>item.factory.call(this, props, configuration)\<close>.\<close>

definition call_factory ::
  "host \<Rightarrow> string list \<Rightarrow> jsval \<Rightarrow> jsval \<Rightarrow> world \<Rightarrow> (error \<times> world) + world" where
  "call_factory h frames f configuration w =
     (case f of
        VRootFactory \<Rightarrow> rootFactory h frames configuration w
      | VUser k \<Rightarrow> user h k configuration w
      | VNoop \<Rightarrow> Inr w
      | _ \<Rightarrow> Inl (HostError, w))"

text \<open>
  The loop of lines 60 to 65 with \<open>i + 1\<close> as its counter.  Beside the state it keeps the
  list of the calls made so far: the factory, the properties object as it is handed over,
  and the configuration.
\<close>

type_synonym call = "jsval \<times> (string \<times> jsval) list \<times> jsval"

fun call_factories ::
  "host \<Rightarrow> string list \<Rightarrow> jsval \<Rightarrow> descriptor list \<Rightarrow> nat \<Rightarrow> call list \<times> world \<Rightarrow>
   call list \<times> ((error \<times> world) + world)" where
  "call_factories h frames configuration chain 0 (calls, w) = (calls, Inr w)"
| "call_factories h frames configuration chain (Suc i) (calls, w) =
     (let item = chain ! i
      in if factory item \<noteq> VNoop
         then (case call_factory h frames (factory item) configuration w of
                 Inl e \<Rightarrow> (calls @ [(factory item, props w, configuration)], Inl e)
               | Inr w' \<Rightarrow>
                   call_factories h frames configuration chain i
                     (calls @ [(factory item, props w, configuration)], w'))
         else call_factories h frames configuration chain i (calls, w))"

text \<open>
  \<open>new construct(message, configuration)\<close> for the constructor with the chain \<open>chain\<close>,
  called from the stack \<open>frames\<close> while \<open>Error.stackTraceLimit\<close> is \<open>limit\<close>.  Lines 41 to
  47 rename the constructor function and touch neither the instance nor the process state.
\<close>

definition new_construct ::
  "host \<Rightarrow> descriptor list \<Rightarrow> jsval \<Rightarrow> jsval \<Rightarrow> string list \<Rightarrow> jsnum \<Rightarrow>
   call list \<times> ((error \<times> world) + world)" where
  "new_construct h chain message configuration frames limit =
     (let this_v = \<lparr>own = [], CustomError_chain = chain, accessors = False,
                     code_var = VUndefined, messageStr = VUndefined, stack_var = []\<rparr>;
          kept = prototype_kept chain message;
          message = message_object message;
          props_v = build_props chain message
      in if \<not> kept
         then ([], Inl (PrototypeReplaced, \<lparr>inst = this_v, props = [], stackTraceLimit = limit\<rparr>))
         else call_factories h (frame_new_construct # frames) configuration chain (length chain)
                ([], \<lparr>inst = this_v, props = props_v, stackTraceLimit = limit\<rparr>))"

text \<open>
  The constructor function: \<open>is_new\<close> is \<open>this instanceof construct\<close>.  A plain call
  (line 38) returns what \<open>new construct(message, configuration)\<close> returns, made from inside
  the plain call's own frame.
\<close>

definition construct ::
  "host \<Rightarrow> descriptor list \<Rightarrow> bool \<Rightarrow> jsval \<Rightarrow> jsval \<Rightarrow> string list \<Rightarrow> jsnum \<Rightarrow>
   call list \<times> ((error \<times> world) + world)" where
  "construct h chain is_new message configuration frames limit =
     (if \<not> is_new then new_construct h chain message configuration (frame_construct # frames) limit
      else new_construct h chain message configuration frames limit)"

text \<open>
  The capture of V8, as its documentation of \<open>Error.stackTraceLimit\<close> gives it: the header
  line, then at most that many frames of the stack (none for a negative limit or NaN, all
  for \<open>Infinity\<close>).
\<close>

definition frames_collected :: "jsnum \<Rightarrow> string list \<Rightarrow> string list" where
  "frames_collected limit frames =
     (case limit of
        Fin n \<Rightarrow> take (nat n) frames
      | PInf \<Rightarrow> frames
      | _ \<Rightarrow> [])"

definition v8_capture :: "jsnum \<Rightarrow> string list \<Rightarrow> error + string list" where
  "v8_capture limit frames = Inr (''Error'' # frames_collected limit frames)"

section \<open>The specification's reading of the operations\<close>






text \<open>
  What \<open>findArg\<close> detects for a slot with canonical index \<open>index\<close>: within the
  positions \<open>0..index\<close> of the arguments, the first value matching the slot's own predicate
  lies after a value that matches the predicate of a later slot.
\<close>

definition out_of_order ::
  "jsval list \<Rightarrow> nat \<Rightarrow> (jsval \<Rightarrow> error + bool) \<Rightarrow> (jsval \<Rightarrow> error + bool) list \<Rightarrow> bool" where
  "out_of_order args index own_p later_ps =
     (\<exists>f \<in> {0..index}. \<exists>a \<in> {0..<f}.
        f < length args \<and> own_p (arg_at args f) = Inr True \<and>
        (\<forall>i \<in> {0..<f}. own_p (arg_at args i) \<noteq> Inr True) \<and>
        (\<exists>g \<in> set later_ps. g (arg_at args a) = Inr True))"

text \<open>A host for the examples: the capture of V8, every caller's factory does nothing,
  and every converted value is a plain object.\<close>

definition ex_host :: host where
  "ex_host = \<lparr>capture = v8_capture, coerce = (\<lambda>v. Inr ''[object Object]''), user = (\<lambda>k c w. Inr w)\<rparr>"

text \<open>The chain of \<open>Err.order\<close>, the constructor whose instance \<open>findArg\<close> throws.\<close>

definition order_chain :: "descriptor list" where
  "order_chain = (case Err_order of Inr (VCtor ch) \<Rightarrow> ch | _ \<Rightarrow> [])"

text \<open>The constructors that calls of \<open>CustomError\<close> can produce: every constructor among the
  arguments was itself produced by \<open>CustomError\<close>.\<close>

inductive built :: "jsval \<Rightarrow> bool" where
  "CustomError args = Inr c \<Longrightarrow> (\<forall>ch. VCtor ch \<in> set args \<longrightarrow> built (VCtor ch)) \<Longrightarrow> built c"

text \<open>The invariant of the chain of a built constructor: it is not empty, it ends in the
  root descriptor (whose parent is \<open>Error\<close>), and every name is a string.\<close>

definition chain_ok :: "descriptor list \<Rightarrow> bool" where
  "chain_ok ch = (ch \<noteq> [] \<and> parent (last ch) = VError \<and> (\<forall>d \<in> set ch. js_typeof (name d) = TString))"

text \<open>The specification's example for \<open>toString\<close>: a root named \<open>Error\<close>, a leaf named
  \<open>NotFoundError\<close> under it, and an instance of the leaf with a code and a message.\<close>

definition ex_NotFoundError :: jsval where
  "ex_NotFoundError =
     (case CustomError [] of
        Inr r \<Rightarrow> (case CustomError [VStr ''NotFoundError'', r] of Inr c \<Rightarrow> c | Inl e \<Rightarrow> VUndefined)
      | Inl e \<Rightarrow> VUndefined)"

definition ex_instance :: ErrorInstance where
  "ex_instance =
     (case construct ex_host (proto_chain ex_NotFoundError) True
             (VObj [(''code'', VStr ''E404''), (''message'', VStr ''missing'')]) VUndefined
             [''    at main''] (Fin 10) of
        (calls, Inr w) \<Rightarrow> inst w
      | (calls, Inl e) \<Rightarrow> \<lparr>own = [], CustomError_chain = [], accessors = False,
                              code_var = VUndefined, messageStr = VUndefined, stack_var = []\<rparr>)"






text \<open>A root type with a falsy code and an empty message among its properties.\<close>

definition ex_falsy_world :: world where
  "ex_falsy_world =
     \<lparr>inst = \<lparr>own = [], CustomError_chain = [Descriptor VRootFactory (VStr ''Error'') VError (VObj [])],
              accessors = False, code_var = VUndefined, messageStr = VUndefined, stack_var = []\<rparr>,
      props = [(''code'', VNum (Fin 0)), (''message'', VStr [])],
      stackTraceLimit = Fin 10\<rparr>"


text \<open>A root-type instance about to be initialised, with the ambient depth 10.\<close>

definition ex_world :: world where
  "ex_world =
     \<lparr>inst = \<lparr>own = [], CustomError_chain = [Descriptor VRootFactory (VStr ''Error'') VError (VObj [])],
              accessors = False, code_var = VUndefined, messageStr = VUndefined, stack_var = []\<rparr>,
      props = [(''message'', VStr ''boom'')],
      stackTraceLimit = Fin 10\<rparr>"

definition ex_frames :: "string list" where
  "ex_frames = [frame_new_construct, ''    at f'', ''    at g'', ''    at main'']"

text \<open>No own property of the configuration or of the merged properties shadows a member
  the root initializer calls: the call reaches the stack capture.\<close>

definition unshadowed :: "jsval \<Rightarrow> world \<Rightarrow> bool" where
  "unshadowed configuration w =
     (''hasOwnProperty'' \<notin> set (js_keys (config_object configuration)) \<and>
      set (js_keys (props w)) \<inter> set shadowing = {})"

text \<open>A host on which \<open>(new Error()).stack\<close> is not a string, so that the capture throws.\<close>

definition ex_throwing_host :: host where
  "ex_throwing_host =
     \<lparr>capture = (\<lambda>limit frames. Inl HostError), coerce = (\<lambda>v. Inr ''[object Object]''),
      user = (\<lambda>k c w. Inr w)\<rparr>"

text \<open>
  Two instances that differ at most in the stack frames they captured: the same own
  properties but for the value of \<open>stack\<close>, the same chain, accessors, code and message,
  and the same header line.
\<close>

definition scrub :: "(string \<times> jsval) list \<Rightarrow> (string \<times> jsval) list" where
  "scrub kvs = map (\<lambda>(k, v). (k, if k = ''stack'' then VUndefined else v)) kvs"

definition same_instance :: "ErrorInstance \<Rightarrow> ErrorInstance \<Rightarrow> bool" where
  "same_instance i j =
     (scrub (own i) = scrub (own j) \<and> CustomError_chain i = CustomError_chain j \<and>
      accessors i = accessors j \<and> code_var i = code_var j \<and> messageStr i = messageStr j \<and>
      take 1 (stack_var i) = take 1 (stack_var j))"

definition same_world :: "world \<Rightarrow> world \<Rightarrow> bool" where
  "same_world w v =
     (same_instance (inst w) (inst v) \<and> props w = props v \<and> stackTraceLimit w = stackTraceLimit v)"

definition same_result :: "(error \<times> world) + world \<Rightarrow> (error \<times> world) + world \<Rightarrow> bool" where
  "same_result r s =
     (case (r, s) of
        (Inr w, Inr v) \<Rightarrow> same_world w v
      | (Inl (e, w), Inl (f, v)) \<Rightarrow> e = f \<and> same_world w v
      | _ \<Rightarrow> False)"

text \<open>The caller's factories do not look at the captured frames.\<close>

definition frame_blind :: "host \<Rightarrow> bool" where
  "frame_blind h = (\<forall>k c w v. same_world w v \<longrightarrow> same_result (user h k c w) (user h k c v))"

section \<open>The property merge on a store of shared objects\<close>

text \<open>
  To speak of mutation, objects live in a store: \<open>cells\<close> maps an address to the own
  properties of the object there, \<open>next_free\<close> is the first address not yet in use.  A descriptor's
  \<open>properties\<close> and an object passed as the message are references into the store, shared
  with whoever else holds them; a message that is not an object is a primitive value.
\<close>

record js_heap =
  cells :: "nat \<rightharpoonup> (string \<times> jsval) list"
  next_free :: nat

datatype href = HRef nat | HPrim jsval

text \<open>An object literal: a new object at the first free address.\<close>

definition alloc :: "js_heap \<Rightarrow> (string \<times> jsval) list \<Rightarrow> nat \<times> js_heap" where
  "alloc hp obj = (next_free hp, hp\<lparr>cells := (cells hp)(next_free hp \<mapsto> obj), next_free := Suc (next_free hp)\<rparr>)"

text \<open>What a reference stands for.\<close>

definition deref :: "js_heap \<Rightarrow> href \<Rightarrow> jsval" where
  "deref hp r = (case r of
                   HRef a \<Rightarrow> (case cells hp a of Some obj \<Rightarrow> VObj obj | None \<Rightarrow> VUndefined)
                 | HPrim v \<Rightarrow> v)"

text \<open>Lines 50 and 51 on the store: a string or a falsy message is replaced by a new object,
  an object is kept as the reference it is.\<close>

definition message_object_h :: "js_heap \<Rightarrow> href \<Rightarrow> href \<times> js_heap" where
  "message_object_h hp message =
     (case message of
        HRef a \<Rightarrow> (HRef a, hp)
      | HPrim v \<Rightarrow>
          if js_typeof v = TString then (case alloc hp [(''message'', v)] of (a, hp') \<Rightarrow> (HRef a, hp'))
          else if \<not> js_truthy v then (case alloc hp [] of (a, hp') \<Rightarrow> (HRef a, hp'))
          else (HPrim v, hp))"

text \<open>One source of \<open>Object.assign\<close>: its own keys are read and set on the object at
  \<open>target\<close>; nothing else is written.\<close>

definition assign_h :: "js_heap \<Rightarrow> nat \<Rightarrow> href \<Rightarrow> js_heap" where
  "assign_h hp target source =
     (case cells hp target of
        None \<Rightarrow> hp
      | Some obj \<Rightarrow> hp\<lparr>cells := (cells hp)(target \<mapsto> assign_one obj (deref hp source))\<rparr>)"

text \<open>Lines 50 to 57 on the store, for a chain given by the references to its descriptors'
  properties (leaf first): the result is the address of \<open>props\<close> and the store after.\<close>

definition build_props_h :: "js_heap \<Rightarrow> nat list \<Rightarrow> href \<Rightarrow> nat \<times> js_heap" where
  "build_props_h hp chain_properties message =
     (case message_object_h hp message of (message, hp1) \<Rightarrow>
        (let ar = map HRef (rev chain_properties);
             ar = ar @ [message]
         in case alloc hp1 [] of (target, hp2) \<Rightarrow>
              (target, fold (\<lambda>source hp'. assign_h hp' target source) ar hp2)))"

text \<open>Any number of constructions, one after the other.\<close>

definition constructions :: "js_heap \<Rightarrow> (nat list \<times> href) list \<Rightarrow> js_heap" where
  "constructions hp requests = fold (\<lambda>(chain_properties, message) hp'. snd (build_props_h hp' chain_properties message)) requests hp"

text \<open>Every address in use is below \<open>next_free\<close>, and every address below it holds an object.\<close>

definition heap_ok :: "js_heap \<Rightarrow> bool" where
  "heap_ok hp = (dom (cells hp) = {a. a < next_free hp})"

text \<open>The store of the specification's example: the defaults of root, A and B at the
  addresses 0, 1 and 2, the caller's message object at 3.\<close>

definition ex_heap :: js_heap where
  "ex_heap =
     \<lparr>cells = [0 \<mapsto> [(''x'', VNum (Fin 1)), (''y'', VNum (Fin 1))],
               1 \<mapsto> [(''y'', VNum (Fin 2))],
               2 \<mapsto> [(''y'', VNum (Fin 3))],
               3 \<mapsto> [(''y'', VNum (Fin 4)), (''z'', VNum (Fin 9))]],
      next_free = 4\<rparr>"







section \<open>Properties of the property merge\<close>











section \<open>Properties of the argument classifier\<close>

lemma anti_fold_Inl:
  "fold (\<lambda>f r. case r of Inl e \<Rightarrow> Inl e
             | Inr anti \<Rightarrow> (case f val of Inl e \<Rightarrow> Inl e | Inr b \<Rightarrow> Inr (if b then Some i else anti)))
     antis (Inl e) = Inl e"
  by (induction antis) simp_all

lemma anti_fold_total:
  "\<forall>g \<in> set antis. \<exists>b. g val = Inr b \<Longrightarrow>
   fold (\<lambda>f r. case r of Inl e \<Rightarrow> Inl e
             | Inr anti \<Rightarrow> (case f val of Inl e \<Rightarrow> Inl e | Inr b \<Rightarrow> Inr (if b then Some i else anti)))
     antis (Inr a0) = Inr (if \<exists>g \<in> set antis. g val = Inr True then Some i else a0)"
proof (induction antis arbitrary: a0)
  case Nil
  then show ?case by simp
next
  case (Cons g antis)
  then obtain b where "g val = Inr b" by auto
  with Cons show ?case by (cases b) auto
qed

lemma step_fold_Inl:
  "fold (\<lambda>i r. case r of Inl e \<Rightarrow> Inl e | Inr st \<Rightarrow> findArg_step args p antis i st) xs (Inl e) = Inl e"
  by (induction xs) simp_all

text \<open>Where no predicate throws, the loop finds the first position of each kind.\<close>

lemma findArg_fold:
  assumes "\<forall>i. \<exists>b. p (arg_at args i) = Inr b"
    and "\<forall>g \<in> set antis. \<forall>i. \<exists>b. g (arg_at args i) = Inr b"
  shows "fold (\<lambda>i r. case r of Inl e \<Rightarrow> Inl e | Inr st \<Rightarrow> findArg_step args p antis i st) xs (Inr (a0, f0)) =
    Inr (case a0 of None \<Rightarrow> find (\<lambda>i. \<exists>g \<in> set antis. g (arg_at args i) = Inr True) xs | Some a \<Rightarrow> Some a,
         case f0 of None \<Rightarrow> find (\<lambda>i. p (arg_at args i) = Inr True) xs | Some f \<Rightarrow> Some f)"
proof (induction xs arbitrary: a0 f0)
  case Nil
  then show ?case by (simp split: option.splits)
next
  case (Cons x xs)
  from assms(1) obtain b where b: "p (arg_at args x) = Inr b" by blast
  from assms(2) have t: "\<forall>g \<in> set antis. \<exists>b. g (arg_at args x) = Inr b" by blast
  have s: "findArg_step args p antis x (a0, f0) =
      Inr (case a0 of None \<Rightarrow> if \<exists>g \<in> set antis. g (arg_at args x) = Inr True then Some x else None
                   | Some a \<Rightarrow> Some a,
           case f0 of None \<Rightarrow> if b then Some x else None | Some f \<Rightarrow> Some f)"
    using b by (simp add: findArg_step_def anti_loop_def anti_fold_total [OF t] Let_def
        split: option.splits)
  show ?case
    using b by (cases b) (auto simp: s Cons.IH split: option.splits)
qed

lemma findArg_find:
  assumes "\<forall>i. \<exists>b. p (arg_at args i) = Inr b"
    and "\<forall>g \<in> set antis. \<forall>i. \<exists>b. g (arg_at args i) = Inr b"
  shows "findArg args index d p antis =
     (let len = (if index < length args then index else length args) in
      case (find (\<lambda>i. \<exists>g \<in> set antis. g (arg_at args i) = Inr True) [0..<Suc len],
            find (\<lambda>i. p (arg_at args i) = Inr True) [0..<Suc len]) of
           (Some anti, Some found) \<Rightarrow>
             if anti < found then Inl ArgumentOrderError else Inr (arg_at args found)
         | (None, Some found) \<Rightarrow> Inr (arg_at args found)
         | (_, None) \<Rightarrow> Inr d)"
  unfolding findArg_def findArg_fold [OF assms] by (simp add: Let_def split: option.splits)

lemma find_upt_Some:
  "find P [0..<n] = Some k \<longleftrightarrow> k < n \<and> P k \<and> (\<forall>i<k. \<not> P i)"
  by (auto simp: find_Some_iff)

lemma find_upt_None: "find P [0..<n] = None \<longleftrightarrow> (\<forall>i<n. \<not> P i)"
  by (auto simp: find_None_iff)

lemma findArg_throws_iff:
  assumes "\<forall>i. \<exists>b. p (arg_at args i) = Inr b"
    and "\<forall>g \<in> set antis. \<forall>i. \<exists>b. g (arg_at args i) = Inr b"
  shows "findArg args index d p antis = Inl ArgumentOrderError \<longleftrightarrow>
     (\<exists>a f. find (\<lambda>i. \<exists>g \<in> set antis. g (arg_at args i) = Inr True) [0..<Suc (min index (length args))] = Some a \<and>
            find (\<lambda>i. p (arg_at args i) = Inr True) [0..<Suc (min index (length args))] = Some f \<and> a < f)"
proof -
  have len: "(if index < length args then index else length args) = min index (length args)"
    by simp
  show ?thesis
    unfolding findArg_find [OF assms] len Let_def
    by (auto split: option.splits)
qed

lemma first_anti_before:
  "(\<exists>a. find Q [0..<n] = Some a \<and> a < f) \<longleftrightarrow> (\<exists>a<f. a < n \<and> Q a)"
proof
  assume "\<exists>a. find Q [0..<n] = Some a \<and> a < f"
  then show "\<exists>a<f. a < n \<and> Q a" by (auto simp: find_upt_Some)
next
  assume "\<exists>a<f. a < n \<and> Q a"
  then obtain a where a: "a < f" "a < n" "Q a" by blast
  define b where "b = (LEAST i. Q i)"
  have "Q b" "b \<le> a" "\<forall>i<b. \<not> Q i"
    using a by (auto simp: b_def intro: LeastI Least_le dest: not_less_Least)
  then have "find Q [0..<n] = Some b \<and> b < f"
    using a by (auto simp: find_upt_Some)
  then show "\<exists>a. find Q [0..<n] = Some a \<and> a < f" by blast
qed

lemma findArg_throws:
  assumes "p VUndefined \<noteq> Inr True"
    and "\<forall>i. \<exists>b. p (arg_at args i) = Inr b"
    and "\<forall>g \<in> set antis. \<forall>i. \<exists>b. g (arg_at args i) = Inr b"
  shows "findArg args index d p antis = Inl ArgumentOrderError \<longleftrightarrow> out_of_order args index p antis"
proof -
  let ?n = "Suc (min index (length args))"
  let ?Q = "\<lambda>i. \<exists>g \<in> set antis. g (arg_at args i) = Inr True"
  let ?P = "\<lambda>i. p (arg_at args i) = Inr True"
  have "findArg args index d p antis = Inl ArgumentOrderError \<longleftrightarrow>
        (\<exists>f. find ?P [0..<?n] = Some f \<and> (\<exists>a. find ?Q [0..<?n] = Some a \<and> a < f))"
    unfolding findArg_throws_iff [OF assms(2,3)] by blast
  also have "\<dots> \<longleftrightarrow> (\<exists>f. find ?P [0..<?n] = Some f \<and> (\<exists>a<f. a < ?n \<and> ?Q a))"
    unfolding first_anti_before ..
  also have "\<dots> \<longleftrightarrow> (\<exists>f. (f < ?n \<and> ?P f \<and> (\<forall>i<f. \<not> ?P i)) \<and> (\<exists>a<f. ?Q a))"
    unfolding find_upt_Some by (meson less_trans)
  also have "\<dots> \<longleftrightarrow> out_of_order args index p antis"
  proof
    assume "\<exists>f. (f < ?n \<and> ?P f \<and> (\<forall>i<f. \<not> ?P i)) \<and> (\<exists>a<f. ?Q a)"
    then obtain f a where f: "f < ?n" "?P f" "\<forall>i<f. \<not> ?P i" and a: "a < f" "?Q a"
      by blast
    have "f < length args"
      using f(2) assms(1) by (cases "f < length args") (auto simp: arg_at_def)
    moreover have "f \<in> {0..index}" "a \<in> {0..<f}" "\<forall>i\<in>{0..<f}. \<not> ?P i"
      using f a by auto
    ultimately show "out_of_order args index p antis"
      unfolding out_of_order_def using f(2) a(2) by blast
  next
    assume "out_of_order args index p antis"
    then obtain f a where f: "f \<le> index" "f < length args" "?P f" "\<forall>i\<in>{0..<f}. \<not> ?P i"
      and a: "a < f" "?Q a"
      unfolding out_of_order_def by (auto simp del: atLeastLessThan_iff) (metis atLeastLessThan_iff)
    have "f < ?n" "\<forall>i<f. \<not> ?P i"
      using f by auto
    then show "\<exists>f. (f < ?n \<and> ?P f \<and> (\<forall>i<f. \<not> ?P i)) \<and> (\<exists>a<f. ?Q a)"
      using f(3) a by blast
  qed
  finally show ?thesis .
qed

text \<open>The predicates throw for a function without a prototype only.\<close>

lemma predicate_total:
  assumes "\<forall>k. v \<noteq> VArrow k"
  shows "\<exists>b. isParentArg v = Inr b" and "\<exists>b. isFactoryArg v = Inr b"
    and "\<exists>b. isPropertiesArg v = Inr b" and "\<exists>b. isNameArg v = Inr b"
proof -
  show "\<exists>b. isParentArg v = Inr b"
    using assms by (cases v) (auto simp: isParentArg_def)
  show "\<exists>b. isFactoryArg v = Inr b"
    using assms by (cases v) (auto simp: isFactoryArg_def)
  show "\<exists>b. isPropertiesArg v = Inr b" by (simp add: isPropertiesArg_def)
  show "\<exists>b. isNameArg v = Inr b" by (simp add: isNameArg_def)
qed

lemma arg_at_no_arrow: "\<forall>k. VArrow k \<notin> set args \<Longrightarrow> arg_at args i \<noteq> VArrow k"
  by (cases "i < length args") (auto simp: arg_at_def dest: nth_mem)

lemma predicates_total:
  assumes "\<forall>k. VArrow k \<notin> set args"
  shows "\<exists>b. isParentArg (arg_at args i) = Inr b" "\<exists>b. isFactoryArg (arg_at args i) = Inr b"
    "\<exists>b. isPropertiesArg (arg_at args i) = Inr b" "\<exists>b. isNameArg (arg_at args i) = Inr b"
  using predicate_total [of "arg_at args i"] arg_at_no_arrow [OF assms, of i] by blast+

lemma not_undefined [simp]:
  "isParentArg VUndefined = Inr False" "isPropertiesArg VUndefined = Inr False"
  "isFactoryArg VUndefined = Inr False" "isNameArg VUndefined = Inr False"
  by (simp_all add: isParentArg_def isPropertiesArg_def isFactoryArg_def isNameArg_def)

lemma out_of_order_never:
  "\<not> out_of_order args 3 isFactoryArg []"
  "\<not> out_of_order args 0 isNameArg later"
  by (simp_all add: out_of_order_def)

text \<open>Whatever the predicates do, a value that \<open>findArg\<close> returns is the default or an
  argument that its filter accepted.\<close>

lemma step_found:
  "findArg_step args p antis i (a0, f0) = Inr (a, f) \<Longrightarrow>
   f = f0 \<or> (f = Some i \<and> p (arg_at args i) = Inr True)"
  by (auto simp: findArg_step_def Let_def split: sum.splits option.splits if_splits)

lemma fold_found:
  "fold (\<lambda>i r. case r of Inl e \<Rightarrow> Inl e | Inr st \<Rightarrow> findArg_step args p antis i st) xs (Inr (a0, f0))
     = Inr (a, f) \<Longrightarrow>
   f = f0 \<or> (\<exists>k. f = Some k \<and> p (arg_at args k) = Inr True)"
proof (induction xs arbitrary: a0 f0)
  case Nil
  then show ?case by simp
next
  case (Cons x xs)
  show ?case
  proof (cases "findArg_step args p antis x (a0, f0)")
    case (Inl e)
    with Cons.prems show ?thesis by (simp add: step_fold_Inl)
  next
    case (Inr st)
    obtain a1 f1 where st: "st = (a1, f1)" by (cases st)
    from Cons.prems Inr st have
      "fold (\<lambda>i r. case r of Inl e \<Rightarrow> Inl e | Inr st \<Rightarrow> findArg_step args p antis i st) xs (Inr (a1, f1))
         = Inr (a, f)" by simp
    from Cons.IH [OF this] step_found [OF Inr [unfolded st]] show ?thesis by auto
  qed
qed

lemma findArg_result:
  assumes "findArg args index d p antis = Inr v" "p VUndefined \<noteq> Inr True"
  shows "v = d \<or> (v \<in> set args \<and> p v = Inr True)"
proof -
  let ?r = "fold (\<lambda>i r. case r of Inl e \<Rightarrow> Inl e | Inr st \<Rightarrow> findArg_step args p antis i st)
              [0..<Suc (if index < length args then index else length args)] (Inr (None, None))"
  have in_set: "arg_at args k \<in> set args" if "p (arg_at args k) = Inr True" for k
    using that assms(2) by (cases "k < length args") (auto simp: arg_at_def)
  show ?thesis
  proof (cases ?r)
    case (Inl e)
    with assms(1) show ?thesis by (simp add: findArg_def Let_def)
  next
    case (Inr st)
    obtain a f where st: "st = (a, f)" by (cases st)
    from fold_found [OF Inr [unfolded st]] have f: "f = None \<or> (\<exists>k. f = Some k \<and> p (arg_at args k) = Inr True)" .
    from assms(1) Inr st have "v = d \<or> (\<exists>k. f = Some k \<and> v = arg_at args k)"
      by (auto simp: findArg_def Let_def split: option.splits if_splits)
    with f in_set show ?thesis by auto
  qed
qed

lemma findArg_error:
  assumes "\<forall>i. \<exists>b. p (arg_at args i) = Inr b"
    and "\<forall>g \<in> set antis. \<forall>i. \<exists>b. g (arg_at args i) = Inr b"
  shows "findArg args index d p antis = Inl e \<Longrightarrow> e = ArgumentOrderError"
  unfolding findArg_find [OF assms] Let_def by (auto split: option.splits if_splits)

lemma CustomError_throws:
  assumes "\<forall>k. VArrow k \<notin> set args"
  shows "(CustomError args = Inl ArgumentOrderError) =
     (out_of_order args 1 isParentArg [isPropertiesArg, isFactoryArg] \<or>
      out_of_order args 2 isPropertiesArg [isFactoryArg])"
proof -
  note t = predicates_total [OF assms]
  have p: "(findArg args 1 VError isParentArg [isPropertiesArg, isFactoryArg] = Inl ArgumentOrderError)
           = out_of_order args 1 isParentArg [isPropertiesArg, isFactoryArg]"
    by (rule findArg_throws) (use t in auto)
  have q: "(findArg args 2 (VObj []) isPropertiesArg [isFactoryArg] = Inl ArgumentOrderError)
           = out_of_order args 2 isPropertiesArg [isFactoryArg]"
    by (rule findArg_throws) (use t in auto)
  have r: "findArg args 3 VNoop isFactoryArg [] \<noteq> Inl ArgumentOrderError"
    using findArg_throws [of isFactoryArg args "[]" 3 VNoop] t by (simp add: out_of_order_never)
  have n: "findArg args 0 d isNameArg [isParentArg, isPropertiesArg, isFactoryArg] \<noteq> Inl ArgumentOrderError" for d
    using findArg_throws [of isNameArg args "[isParentArg, isPropertiesArg, isFactoryArg]" 0 d] t
    by (auto simp: out_of_order_never)
  have h: "map_sum id name (proto_CustomError v) \<noteq> Inl ArgumentOrderError" for v
    by (cases v rule: proto_CustomError.cases) simp_all
  have e: "findArg args (Suc 0) VError isParentArg [isPropertiesArg, isFactoryArg] = Inl x \<Longrightarrow>
           x = ArgumentOrderError" for x
    by (rule findArg_error [rotated 2]) (use t in auto)
  show ?thesis
    unfolding p [symmetric] q [symmetric] CustomError_def
    using r n h
    by (auto split: sum.splits simp: Let_def dest: e)
qed

lemma Err_order_value:
  "Err_order = Inr (VCtor
     [Descriptor VNoop (VStr ''CustomError'')
        (VCtor [Descriptor VRootFactory (VStr ''CustomError'') VError (VObj [])])
        (VObj [(''message'', VStr ''Arguments out of order.''), (''code'', VStr ''EOARG'')]),
      Descriptor VRootFactory (VStr ''CustomError'') VError (VObj [])])"
  by code_simp

section \<open>Properties of the root factory\<close>

lemma copy_fold_Inl:
  "fold (\<lambda>key r. case r of Inl e \<Rightarrow> Inl e | Inr st' \<Rightarrow> copy_key P key st') ks (Inl e) = Inl e"
  by (induction ks) simp_all

lemma copy_fold_result:
  "fold (\<lambda>key r. case r of Inl e \<Rightarrow> Inl e | Inr st' \<Rightarrow> copy_key P key st') ks (Inr (c0, m0, o0))
     = Inr (c, m, ow) \<Longrightarrow>
   c = (if ''code'' \<in> set ks then js_or (js_get P ''code'') VUndefined else c0) \<and>
   m = (if ''message'' \<in> set ks then js_or (js_get P ''message'') (VStr []) else m0) \<and>
   set ks \<inter> set shadowing = {} \<and>
   map_of ow = map_of o0 ++ (\<lambda>k. if k \<in> set ks - {''code'', ''message''} then Some (js_get P k) else None)"
proof (induction ks arbitrary: c0 m0 o0)
  case Nil
  then show ?case by (simp add: map_add_def)
next
  case (Cons k ks)
  show ?case
  proof (cases "copy_key P k (c0, m0, o0)")
    case (Inl e)
    with Cons.prems show ?thesis by (simp add: copy_fold_Inl)
  next
    case (Inr st)
    obtain c1 m1 o1 where st: "st = (c1, m1, o1)" by (cases st)
    from Cons.prems Inr st
    have "fold (\<lambda>key r. case r of Inl e \<Rightarrow> Inl e | Inr st' \<Rightarrow> copy_key P key st') ks (Inr (c1, m1, o1))
          = Inr (c, m, ow)" by simp
    from Cons.IH [OF this] Inr st show ?thesis
      by (auto simp: copy_key_def update_conv' map_add_def fun_eq_iff shadowing_def
          split: if_splits option.splits)
  qed
qed

lemma copy_properties_result:
  assumes "copy_properties P (VUndefined, VStr [], o0) = Inr (c, m, ow)"
  shows "c = js_or (js_get P ''code'') VUndefined"
    and "m = js_or (js_get P ''message'') (VStr [])"
    and "set (js_keys P) \<inter> set shadowing = {}"
    and "map_of ow = map_of o0 ++ (\<lambda>k. if k \<in> fst ` set P - {''code'', ''message''} then Some (js_get P k) else None)"
proof -
  note r = copy_fold_result [OF assms [unfolded copy_properties_def]]
  have absent: "js_get P k = VUndefined" if "k \<notin> set (js_keys P)" for k
  proof -
    from that have "map_of P k = None" by (simp add: js_keys_def map_of_eq_None_iff)
    then show ?thesis by (simp add: js_get_def)
  qed
  show "c = js_or (js_get P ''code'') VUndefined"
    using r absent [of "''code''"] by (auto simp: js_or_def)
  show "m = js_or (js_get P ''message'') (VStr [])"
    using r absent [of "''message''"] by (auto simp: js_or_def)
  show "set (js_keys P) \<inter> set shadowing = {}" using r by simp
  show "map_of ow = map_of o0 ++ (\<lambda>k. if k \<in> fst ` set P - {''code'', ''message''} then Some (js_get P k) else None)"
    using r by (simp add: js_keys_def)
qed

lemma rootFactory_Inr:
  assumes "rootFactory h frames configuration w = Inr w'"
  obtains own_v lines s where
    "copy_properties (props w) (VUndefined, VStr [], own (inst w))
       = Inr (js_or (js_get (props w) ''code'') VUndefined, js_or (js_get (props w) ''message'') (VStr []), own_v)"
    "capture h (js_plus2 (config_stackLength (config_object configuration) (stackTraceLimit w)))
       (frame_rootFactory # frames) = Inr lines"
    "toString h ((inst w)\<lparr>own := AList.update ''stack'' (VStr (js_join ([] # drop 3 lines))) own_v,
                   stack_var := [] # drop 3 lines,
                   code_var := js_or (js_get (props w) ''code'') VUndefined,
                   messageStr := js_or (js_get (props w) ''message'') (VStr []),
                   accessors := True\<rparr>) = Inr s"
    "w' = w\<lparr>inst := (inst w)\<lparr>
            own := AList.update ''stack'' (VStr (js_join (s # drop 3 lines)))
                     (AList.update ''stack'' (VStr (js_join ([] # drop 3 lines))) own_v),
            stack_var := s # drop 3 lines,
            code_var := js_or (js_get (props w) ''code'') VUndefined,
            messageStr := js_or (js_get (props w) ''message'') (VStr []),
            accessors := True\<rparr>\<rparr>"
    "''hasOwnProperty'' \<notin> set (js_keys (config_object configuration))"
proof -
  from assms have nh: "''hasOwnProperty'' \<notin> set (js_keys (config_object configuration))"
    by (auto simp: rootFactory_def Let_def split: if_splits)
  from assms nh obtain c m own_v where
    cp: "copy_properties (props w) (VUndefined, VStr [], own (inst w)) = Inr (c, m, own_v)"
    by (auto simp: rootFactory_def Let_def split: if_splits sum.splits)
  note cr = copy_properties_result [OF cp]
  from assms nh cp obtain lines where
    cap: "capture h (js_plus2 (config_stackLength (config_object configuration) (stackTraceLimit w)))
       (frame_rootFactory # frames) = Inr lines"
    by (auto simp: rootFactory_def Let_def split: if_splits sum.splits)
  let ?this1 = "(inst w)\<lparr>own := AList.update ''stack'' (VStr (js_join ([] # drop 3 lines))) own_v,
                   stack_var := [] # drop 3 lines,
                   code_var := c, messageStr := m, accessors := True\<rparr>"
  from assms nh cp cap obtain this2 where
    us: "updateStack h ?this1 = Inr this2" and w': "w' = w\<lparr>inst := this2\<rparr>"
    by (auto simp: rootFactory_def Let_def split: if_splits sum.splits)
  from us obtain s where ts: "toString h ?this1 = Inr s"
    and t2: "this2 = ?this1\<lparr>stack_var := s # drop 3 lines,
               own := AList.update ''stack'' (VStr (js_join (s # drop 3 lines))) (own ?this1)\<rparr>"
    by (auto simp: updateStack_def Let_def split: sum.splits)
  show ?thesis
    by (rule that [of own_v lines s]) (use cp cr cap ts t2 w' nh in simp_all)
qed

lemma order_chain_value:
  "order_chain =
     [Descriptor VNoop (VStr ''CustomError'')
        (VCtor [Descriptor VRootFactory (VStr ''CustomError'') VError (VObj [])])
        (VObj [(''message'', VStr ''Arguments out of order.''), (''code'', VStr ''EOARG'')]),
      Descriptor VRootFactory (VStr ''CustomError'') VError (VObj [])]"
  by (simp add: order_chain_def Err_order_value)

lemma order_props:
  "build_props order_chain (message_object VUndefined) =
     [(''message'', VStr ''Arguments out of order.''), (''code'', VStr ''EOARG'')]"
  by (simp add: order_chain_value build_props_def message_object_def Object_assign_def
      assign_one_def assign_key_def js_keys_def js_get_def)

lemma order_kept: "prototype_kept order_chain VUndefined"
  by (simp add: order_chain_value prototype_kept_def keeps_prototype_def message_object_def js_get_def)

lemma order_instance_code:
  assumes "construct h order_chain True VUndefined VUndefined frames limit = (calls, Inr w)"
  shows "get_code (inst w) = VStr ''EOARG''"
proof -
  let ?w0 = "\<lparr>inst = \<lparr>own = [], CustomError_chain = order_chain, accessors = False,
                     code_var = VUndefined, messageStr = VUndefined, stack_var = []\<rparr>,
              props = [(''message'', VStr ''Arguments out of order.''), (''code'', VStr ''EOARG'')],
              stackTraceLimit = limit\<rparr>"
  have len: "length order_chain = Suc (Suc 0)" by (simp add: order_chain_value)
  have f1: "factory (order_chain ! Suc 0) = VRootFactory" and f0: "factory (order_chain ! 0) = VNoop"
    by (simp_all add: order_chain_value)
  from assms have "rootFactory h (frame_new_construct # frames) VUndefined ?w0 = Inr w"
    by (simp add: construct_def new_construct_def order_kept order_props len f1 f0 call_factory_def Let_def
        split: sum.splits)
  then show ?thesis
    by (rule rootFactory_Inr) (simp add: get_code_def js_get_def js_or_def)
qed

text \<open>
  C4 (amended).  For arguments among which no function lacks a prototype, \<open>CustomError\<close>
  throws the argument-order error exactly when \<open>findArg\<close> detects an inversion for one of
  the four slots: within the positions up to the slot's canonical index (1 for the parent, 2
  for the properties), the first value matching the slot's predicate lies after a value
  matching a later slot's predicate.  A value of an earlier slot that stands beyond its
  canonical index is not examined.  The thrown value is \<open>new Err.order()\<close>, and every
  instance of \<open>Err.order\<close> carries the code \<open>'EOARG'\<close>.  (For a function without a
  prototype the predicates of lines 124 and 132 themselves throw a TypeError.)
\<close>

theorem builder_argument_order:
  "((\<forall>k. VArrow k \<notin> set args) \<longrightarrow>
      (CustomError args = Inl ArgumentOrderError) =
        (out_of_order args 1 isParentArg [isPropertiesArg, isFactoryArg] \<or>
         out_of_order args 2 isPropertiesArg [isFactoryArg] \<or>
         out_of_order args 3 isFactoryArg [] \<or>
         out_of_order args 0 isNameArg [isParentArg, isPropertiesArg, isFactoryArg]))
   \<and> Err_order = Inr (VCtor order_chain)
   \<and> (\<forall>h frames limit calls w.
          construct h order_chain True VUndefined VUndefined frames limit = (calls, Inr w) \<longrightarrow>
          get_code (inst w) = VStr ''EOARG'')"
  using order_instance_code
  by (auto simp: CustomError_throws out_of_order_never order_chain_value Err_order_value)

text \<open>
  C4 as stated fails: in \<open>CustomError({}, 'n')\<close> a properties object precedes a name, and
  the call returns a root constructor named \<open>Error\<close>.
\<close>

theorem builder_argument_order_counterexample:
  "isPropertiesArg (VObj []) = Inr True \<and> isNameArg (VStr ''n'') = Inr True \<and>
   CustomError [VObj [], VStr ''n''] = Inr (VCtor [Descriptor VRootFactory (VStr ''Error'') VError (VObj [])])"
  by code_simp

text \<open>A function without a prototype among the arguments: the TypeError of line 124.\<close>

lemma CustomError_arrow: "CustomError [VArrow 0, VError] = Inl TypeError"
  by code_simp

lemma order_instance_example:
  "\<exists>calls w. construct ex_host order_chain True VUndefined VUndefined [''    at main''] (Fin 10) = (calls, Inr w)"
  by (simp add: order_chain_value construct_def new_construct_def prototype_kept_def keeps_prototype_def build_props_def message_object_def
      Object_assign_def assign_one_def assign_key_def js_keys_def js_get_def call_factory_def rootFactory_def
      config_object_def config_stackLength_def copy_properties_def copy_key_def shadowing_def
      ex_host_def v8_capture_def frames_collected_def updateStack_def toString_def get_code_def get_message_def js_or_def
      numeral_2_eq_2 Let_def)

theorem builder_argument_order_witness:
  "out_of_order [VUser 0, VError] 1 isParentArg [isPropertiesArg, isFactoryArg] \<and>
   CustomError [VUser 0, VError] = Inl ArgumentOrderError \<and>
   (\<exists>calls w. construct ex_host order_chain True VUndefined VUndefined [''    at main''] (Fin 10) = (calls, Inr w)
       \<and> get_code (inst w) = VStr ''EOARG'')"
proof -
  have o: "out_of_order [VUser 0, VError] 1 isParentArg [isPropertiesArg, isFactoryArg]"
    unfolding out_of_order_def
    by (intro bexI [of _ 1] bexI [of _ 0])
       (simp_all add: arg_at_def isParentArg_def isFactoryArg_def isPropertiesArg_def)
  note t = builder_argument_order [of "[VUser 0, VError]"]
  have "\<forall>k. VArrow k \<notin> set [VUser 0, VError]" by simp
  with t o have c: "CustomError [VUser 0, VError] = Inl ArgumentOrderError" by blast
  from order_instance_example t have
    "\<exists>calls w. construct ex_host order_chain True VUndefined VUndefined [''    at main''] (Fin 10) = (calls, Inr w)
       \<and> get_code (inst w) = VStr ''EOARG''" by blast
  with o c show ?thesis by blast
qed

section \<open>Properties of the builder and of toString\<close>

lemma isParentArg_True: "isParentArg v = Inr True \<Longrightarrow> v = VError \<or> (\<exists>ch. v = VCtor ch)"
  by (cases v) (simp_all add: isParentArg_def)

lemma built_chain_ok: "built c \<Longrightarrow> \<exists>ch. c = VCtor ch \<and> chain_ok ch"
proof (induction rule: built.induct)
  case (1 args c)
  from 1(1) obtain parent_v properties_v factory_v defaultName name_v where
    p: "findArg args 1 VError isParentArg [isPropertiesArg, isFactoryArg] = Inr parent_v" and
    dn: "(if parent_v = VError then Inr (VStr ''Error'') else map_sum id name (proto_CustomError parent_v)) = Inr defaultName" and
    n: "findArg args 0 defaultName isNameArg [isParentArg, isPropertiesArg, isFactoryArg] = Inr name_v" and
    c: "c = VCtor (Descriptor (if parent_v = VError \<and> factory_v = VNoop then VRootFactory else factory_v)
             name_v parent_v properties_v # (if parent_v = VError then [] else proto_chain parent_v))"
    by (auto simp: CustomError_def Let_def split: sum.splits)
  from findArg_result [OF p] have pv: "parent_v = VError \<or> (parent_v \<in> set args \<and> isParentArg parent_v = Inr True)"
    by simp
  show ?case
  proof (cases "parent_v = VError")
    case True
    with dn have "defaultName = VStr ''Error''" by simp
    with findArg_result [OF n] have "js_typeof name_v = TString"
      by (auto simp: isNameArg_def)
    with True c show ?thesis by (simp add: chain_ok_def)
  next
    case False
    with pv isParentArg_True [of parent_v] obtain ch0 where "parent_v \<in> set args" "parent_v = VCtor ch0"
      by blast
    with 1(2) obtain ch where ch: "parent_v = VCtor ch" "chain_ok ch" by blast
    then obtain d0 ds where d0: "ch = d0 # ds" by (cases ch) (auto simp: chain_ok_def)
    with dn False ch have "defaultName = name d0" by simp
    with findArg_result [OF n] ch d0 have "js_typeof name_v = TString"
      by (auto simp: isNameArg_def chain_ok_def)
    with False c ch show ?thesis by (auto simp: chain_ok_def)
  qed
qed

lemma ex_NotFoundError_value:
  "ex_NotFoundError =
     VCtor [Descriptor VNoop (VStr ''NotFoundError'')
              (VCtor [Descriptor VRootFactory (VStr ''Error'') VError (VObj [])]) (VObj []),
            Descriptor VRootFactory (VStr ''Error'') VError (VObj [])]"
  by code_simp

lemma ex_instance_value:
  "ex_instance =
     \<lparr>own = [(''stack'', VStr (js_join [''Error E404: missing'', ''    at main'']))],
      CustomError_chain = proto_chain ex_NotFoundError, accessors = True,
      code_var = VStr ''E404'', messageStr = VStr ''missing'',
      stack_var = [''Error E404: missing'', ''    at main'']\<rparr>"
  by (simp add: ex_instance_def ex_NotFoundError_value construct_def new_construct_def prototype_kept_def keeps_prototype_def build_props_def
      message_object_def Object_assign_def assign_one_def assign_key_def js_keys_def js_get_def call_factory_def
      rootFactory_def config_object_def config_stackLength_def copy_properties_def copy_key_def
      shadowing_def ex_host_def v8_capture_def frames_collected_def updateStack_def toString_def get_code_def
      get_message_def js_or_def numeral_2_eq_2 Let_def frame_rootFactory_def frame_new_construct_def)

lemma built_ex_NotFoundError: "built ex_NotFoundError"
proof -
  have r: "CustomError [] = Inr (VCtor [Descriptor VRootFactory (VStr ''Error'') VError (VObj [])])"
    by code_simp
  have b: "built (VCtor [Descriptor VRootFactory (VStr ''Error'') VError (VObj [])])"
    by (rule built.intros [OF r]) simp
  have c: "CustomError [VStr ''NotFoundError'', VCtor [Descriptor VRootFactory (VStr ''Error'') VError (VObj [])]]
      = Inr ex_NotFoundError"
    unfolding ex_NotFoundError_value by code_simp
  show ?thesis
    by (rule built.intros [OF c]) (simp add: b)
qed

text \<open>
  C3 (amended).  For an instance of a built error type, \<open>toString()\<close> is the name of the
  root descriptor (the last element of the chain, whose parent is \<open>Error\<close>), then a space
  and the code when the code is truthy, then \<open>': '\<close> and the message when the message is
  truthy.
\<close>

theorem toString_uses_root_name:
  assumes "built ctor" and "CustomError_chain i = proto_chain ctor"
    and "js_truthy (get_code i) \<longrightarrow> js_to_string h (get_code i) = Inr c"
    and "js_truthy (get_message i) \<longrightarrow> js_to_string h (get_message i) = Inr m"
  shows "\<exists>root_name.
           name (last (proto_chain ctor)) = VStr root_name \<and>
           parent (last (proto_chain ctor)) = VError \<and>
           toString h i =
             Inr (root_name @ (if js_truthy (get_code i) then '' '' @ c else [])
                            @ (if js_truthy (get_message i) then '': '' @ m else []))"
proof -
  from built_chain_ok [OF assms(1)] obtain ch where ch: "ctor = VCtor ch" "chain_ok ch" by blast
  then obtain d ds where dds: "ch = d # ds" by (cases ch) (auto simp: chain_ok_def)
  from ch have "js_typeof (name (last ch)) = TString" "parent (last ch) = VError"
    by (auto simp: chain_ok_def)
  then obtain root_name where rn: "name (last ch) = VStr root_name"
    by (cases "name (last ch)") auto
  have "toString h i =
             Inr (root_name @ (if js_truthy (get_code i) then '' '' @ c else [])
                            @ (if js_truthy (get_message i) then '': '' @ m else []))"
    using assms(2-4) ch(1) dds rn by (simp add: toString_def)
  with rn \<open>parent (last ch) = VError\<close> ch(1) show ?thesis by simp
qed

theorem toString_uses_root_name_witness:
  "built ex_NotFoundError \<and> CustomError_chain ex_instance = proto_chain ex_NotFoundError \<and>
   name (hd (proto_chain ex_NotFoundError)) = VStr ''NotFoundError'' \<and>
   get_code ex_instance = VStr ''E404'' \<and> get_message ex_instance = VStr ''missing'' \<and>
   toString ex_host ex_instance = Inr ''Error E404: missing''"
proof -
  have g: "get_code ex_instance = VStr ''E404''" "get_message ex_instance = VStr ''missing''"
    "CustomError_chain ex_instance = proto_chain ex_NotFoundError"
    by (simp_all add: ex_instance_value get_code_def get_message_def)
  from toString_uses_root_name [OF built_ex_NotFoundError g(3), of ex_host "''E404''" "''missing''"] g
  have "toString ex_host ex_instance = Inr ''Error E404: missing''"
    by (auto simp: ex_NotFoundError_value)
  with g built_ex_NotFoundError show ?thesis
    by (simp add: ex_NotFoundError_value)
qed


text \<open>
  C3 as stated fails: after \<open>instance.code = 0\<close> on the example instance the code is
  present, it is the number 0, and \<open>toString()\<close> has no code segment.
\<close>

theorem toString_uses_root_name_counterexample:
  "(case set_code ex_host (VNum (Fin 0)) ex_instance of
      Inr i \<Rightarrow> get_code i = VNum (Fin 0) \<and> get_message i = VStr ''missing'' \<and>
               toString ex_host i = Inr ''Error: missing''
    | Inl e \<Rightarrow> False)"
  by (simp add: ex_instance_value ex_NotFoundError_value set_code_def updateStack_def toString_def
      get_code_def get_message_def ex_host_def)

section \<open>Properties of the factory loop\<close>












section \<open>Properties of the accessors\<close>

lemma toString_cong:
  assumes "CustomError_chain i = CustomError_chain j" "get_code i = get_code j"
    "get_message i = get_message j"
  shows "toString h i = toString h j"
  unfolding toString_def assms by (rule refl)











section \<open>Properties of the normalisation of code and message\<close>

lemma map_sum_id_Inr: "map_sum id f x = Inr s \<longleftrightarrow> (\<exists>m. x = Inr m \<and> s = f m)"
  by (cases x) auto

lemma rootFactory_fields:
  assumes "rootFactory h frames configuration w = Inr w'"
  shows "accessors (inst w')"
    and "get_code (inst w') = js_or (js_get (props w) ''code'') VUndefined"
    and "get_message (inst w') = js_or (js_get (props w) ''message'') (VStr [])"
    and "CustomError_chain (inst w') = CustomError_chain (inst w)"
    and "\<exists>s. toString h (inst w') = Inr s \<and> hd (stack_var (inst w')) = s"
proof -
  show "accessors (inst w')" "get_code (inst w') = js_or (js_get (props w) ''code'') VUndefined"
    "get_message (inst w') = js_or (js_get (props w) ''message'') (VStr [])"
    "CustomError_chain (inst w') = CustomError_chain (inst w)"
    by (rule rootFactory_Inr [OF assms], simp add: get_code_def get_message_def)+
  show "\<exists>s. toString h (inst w') = Inr s \<and> hd (stack_var (inst w')) = s"
  proof (rule rootFactory_Inr [OF assms])
    fix own_v lines s
    assume t: "toString h ((inst w)\<lparr>own := AList.update ''stack'' (VStr (js_join ([] # drop 3 lines))) own_v,
                   stack_var := [] # drop 3 lines,
                   code_var := js_or (js_get (props w) ''code'') VUndefined,
                   messageStr := js_or (js_get (props w) ''message'') (VStr []),
                   accessors := True\<rparr>) = Inr s"
      and w': "w' = w\<lparr>inst := (inst w)\<lparr>
            own := AList.update ''stack'' (VStr (js_join (s # drop 3 lines)))
                     (AList.update ''stack'' (VStr (js_join ([] # drop 3 lines))) own_v),
            stack_var := s # drop 3 lines,
            code_var := js_or (js_get (props w) ''code'') VUndefined,
            messageStr := js_or (js_get (props w) ''message'') (VStr []),
            accessors := True\<rparr>\<rparr>"
    have "toString h (inst w') = Inr s"
      unfolding t [symmetric] by (rule toString_cong) (simp_all add: w' get_code_def get_message_def)
    then show ?thesis by (simp add: w')
  qed
qed

text \<open>
  C10.  The root initializer turns a falsy merged code into \<open>undefined\<close> and a falsy merged
  message into the empty string, whether the key is present or not; \<open>toString()\<close> of the
  instance then has no code segment, respectively no message segment.
\<close>

theorem falsy_code_and_message_normalised:
  assumes "rootFactory h frames configuration w = Inr w'"
    and "CustomError_chain (inst w) \<noteq> []"
    and "name (last (CustomError_chain (inst w))) = VStr root_name"
  shows "(\<not> js_truthy (js_get (props w) ''code'') \<longrightarrow>
            get_code (inst w') = VUndefined \<and>
            (\<exists>m. toString h (inst w') =
                   Inr (root_name @ (if js_truthy (get_message (inst w')) then '': '' @ m else [])))) \<and>
         (\<not> js_truthy (js_get (props w) ''message'') \<longrightarrow>
            get_message (inst w') = VStr [] \<and>
            (\<exists>c. toString h (inst w') =
                   Inr (root_name @ (if js_truthy (get_code (inst w')) then '' '' @ c else []))))"
proof -
  note f = rootFactory_fields [OF assms(1)]
  from assms(2) f(4) obtain d ds where ch: "CustomError_chain (inst w') = d # ds"
    by (metis neq_Nil_conv)
  from assms(3) f(4) have nm: "name (last (d # ds)) = VStr root_name" by (simp add: ch)
  from f(5) obtain s where s: "toString h (inst w') = Inr s" by blast
  have A: "\<exists>m. s = root_name @ (if js_truthy (get_message (inst w')) then '': '' @ m else [])"
    if "\<not> js_truthy (get_code (inst w'))"
    using s that ch nm by (auto simp: toString_def map_sum_id_Inr split: sum.splits if_splits)
  have B: "\<exists>c. s = root_name @ (if js_truthy (get_code (inst w')) then '' '' @ c else [])"
    if "\<not> js_truthy (get_message (inst w'))"
    using s that ch nm by (auto simp: toString_def map_sum_id_Inr split: sum.splits if_splits)
  show ?thesis
    using A B s f(2,3) by (auto simp: js_or_def)
qed

lemma ex_falsy_rootFactory:
  "rootFactory ex_host [frame_new_construct, ''    at main''] VUndefined ex_falsy_world =
     Inr (ex_falsy_world\<lparr>inst := (inst ex_falsy_world)\<lparr>
            own := [(''stack'', VStr (js_join [''Error'', ''    at main'']))],
            stack_var := [''Error'', ''    at main''],
            code_var := VUndefined, messageStr := VStr [], accessors := True\<rparr>\<rparr>)"
  by (simp add: ex_falsy_world_def rootFactory_def config_object_def config_stackLength_def
      copy_properties_def copy_key_def js_keys_def js_get_def js_or_def shadowing_def ex_host_def
      v8_capture_def frames_collected_def updateStack_def toString_def get_code_def get_message_def Let_def
      frame_rootFactory_def frame_new_construct_def)

theorem falsy_code_and_message_normalised_witness:
  "CustomError_chain (inst ex_falsy_world) \<noteq> [] \<and>
   name (last (CustomError_chain (inst ex_falsy_world))) = VStr ''Error'' \<and>
   map_of (props ex_falsy_world) ''code'' = Some (VNum (Fin 0)) \<and>
   map_of (props ex_falsy_world) ''message'' = Some (VStr []) \<and>
   (\<exists>w'. rootFactory ex_host [frame_new_construct, ''    at main''] VUndefined ex_falsy_world = Inr w' \<and>
         get_code (inst w') = VUndefined \<and> get_message (inst w') = VStr [] \<and>
         toString ex_host (inst w') = Inr ''Error'')"
proof -
  have c: "CustomError_chain (inst ex_falsy_world) \<noteq> []"
    and n: "name (last (CustomError_chain (inst ex_falsy_world))) = VStr ''Error''"
    and p: "map_of (props ex_falsy_world) ''code'' = Some (VNum (Fin 0))"
      "map_of (props ex_falsy_world) ''message'' = Some (VStr [])"
    by (simp_all add: ex_falsy_world_def)
  from p have q: "\<not> js_truthy (js_get (props ex_falsy_world) ''code'')"
    "\<not> js_truthy (js_get (props ex_falsy_world) ''message'')"
    by (simp_all add: js_get_def)
  from falsy_code_and_message_normalised [OF ex_falsy_rootFactory c n] q
  have "\<exists>w'. rootFactory ex_host [frame_new_construct, ''    at main''] VUndefined ex_falsy_world = Inr w' \<and>
         get_code (inst w') = VUndefined \<and> get_message (inst w') = VStr [] \<and>
         toString ex_host (inst w') = Inr ''Error''"
    by (auto simp: ex_falsy_rootFactory)
  with c n p show ?thesis by blast
qed

section \<open>Properties of the stack capture\<close>









section \<open>Properties of the save and restore of the capture depth\<close>

lemma copy_fold_total:
  "set ks \<inter> set shadowing = {} \<Longrightarrow>
   \<exists>res. fold (\<lambda>key r. case r of Inl e \<Rightarrow> Inl e | Inr st' \<Rightarrow> copy_key P key st') ks (Inr st) = Inr res"
proof (induction ks arbitrary: st)
  case Nil
  show ?case by (rule exI [of _ st]) simp
next
  case (Cons k ks)
  obtain c m ow where st: "st = (c, m, ow)" by (cases st) auto
  from Cons.prems have "k \<notin> set shadowing" by auto
  then have "\<exists>st1. copy_key P k st = Inr st1"
    by (simp add: copy_key_def st)
  then obtain st1 where "copy_key P k st = Inr st1" by blast
  with Cons show ?case by simp
qed

lemma copy_properties_total:
  "set (js_keys P) \<inter> set shadowing = {} \<Longrightarrow> \<exists>res. copy_properties P st = Inr res"
  unfolding copy_properties_def by (rule copy_fold_total)

text \<open>
  C7 (amended).  The root initializer runs the capture under the requested depth plus 2.
  When the capture returns, \<open>Error.stackTraceLimit\<close> is back at its prior value on every
  way out of the initializer, also when a later step throws.  When the capture throws, the
  exception leaves the initializer and \<open>Error.stackTraceLimit\<close> stays at the requested
  depth plus 2.
\<close>

theorem root_initializer_restores_depth:
  "(\<forall>lines. capture h (js_plus2 (config_stackLength (config_object configuration) (stackTraceLimit w)))
             (frame_rootFactory # frames) = Inr lines \<longrightarrow>
      (case rootFactory h frames configuration w of
         Inr w' \<Rightarrow> stackTraceLimit w' = stackTraceLimit w
       | Inl (e, w1) \<Rightarrow> stackTraceLimit w1 = stackTraceLimit w)) \<and>
   (\<forall>e. capture h (js_plus2 (config_stackLength (config_object configuration) (stackTraceLimit w)))
             (frame_rootFactory # frames) = Inl e \<and> unshadowed configuration w \<longrightarrow>
      (\<exists>w1. rootFactory h frames configuration w = Inl (e, w1) \<and>
            stackTraceLimit w1 =
              js_plus2 (config_stackLength (config_object configuration) (stackTraceLimit w))))"
proof (intro conjI allI impI)
  fix lines
  assume "capture h (js_plus2 (config_stackLength (config_object configuration) (stackTraceLimit w)))
             (frame_rootFactory # frames) = Inr lines"
  then show "case rootFactory h frames configuration w of
         Inr w' \<Rightarrow> stackTraceLimit w' = stackTraceLimit w
       | Inl (e, w1) \<Rightarrow> stackTraceLimit w1 = stackTraceLimit w"
    by (auto simp: rootFactory_def Let_def split: sum.splits prod.splits)
next
  fix e
  assume a: "capture h (js_plus2 (config_stackLength (config_object configuration) (stackTraceLimit w)))
             (frame_rootFactory # frames) = Inl e \<and> unshadowed configuration w"
  then obtain res where "copy_properties (props w) (VUndefined, VStr [], own (inst w)) = Inr res"
    using copy_properties_total [of "props w" "(VUndefined, VStr [], own (inst w))"]
    by (auto simp: unshadowed_def)
  with a show "\<exists>w1. rootFactory h frames configuration w = Inl (e, w1) \<and>
            stackTraceLimit w1 =
              js_plus2 (config_stackLength (config_object configuration) (stackTraceLimit w))"
    by (cases res) (auto simp: rootFactory_def Let_def unshadowed_def)
qed

text \<open>
  C7 as stated fails: on a host whose capture throws, the initializer ends with
  \<open>Error.stackTraceLimit\<close> at 12 where it was 10 before the call.
\<close>

theorem root_initializer_restores_depth_counterexample:
  "stackTraceLimit ex_world = Fin 10 \<and>
   (case rootFactory ex_throwing_host ex_frames VUndefined ex_world of
      Inl (e, w1) \<Rightarrow> e = HostError \<and> stackTraceLimit w1 = Fin 12
    | Inr w' \<Rightarrow> False)"
  by (simp add: ex_world_def ex_frames_def ex_throwing_host_def rootFactory_def config_object_def
      config_stackLength_def copy_properties_def copy_key_def js_keys_def js_get_def js_or_def
      shadowing_def Let_def)

theorem root_initializer_restores_depth_witness:
  "unshadowed VUndefined ex_world \<and>
   capture ex_throwing_host (js_plus2 (config_stackLength (config_object VUndefined) (stackTraceLimit ex_world)))
     (frame_rootFactory # ex_frames) = Inl HostError \<and>
   (\<exists>w1. rootFactory ex_throwing_host ex_frames VUndefined ex_world = Inl (HostError, w1) \<and>
         stackTraceLimit w1 = Fin 12) \<and>
   (\<exists>lines. capture ex_host (js_plus2 (config_stackLength (config_object VUndefined) (stackTraceLimit ex_world)))
     (frame_rootFactory # ex_frames) = Inr lines) \<and>
   (case rootFactory ex_host ex_frames VUndefined ex_world of
         Inr w' \<Rightarrow> stackTraceLimit w' = Fin 10
       | Inl (e, w1) \<Rightarrow> stackTraceLimit w1 = Fin 10)"
proof -
  have u: "unshadowed VUndefined ex_world"
    by (simp add: unshadowed_def ex_world_def config_object_def js_keys_def shadowing_def)
  have c: "capture ex_throwing_host (js_plus2 (config_stackLength (config_object VUndefined) (stackTraceLimit ex_world)))
     (frame_rootFactory # ex_frames) = Inl HostError"
    by (simp add: ex_throwing_host_def)
  have d: "js_plus2 (config_stackLength (config_object VUndefined) (stackTraceLimit ex_world)) = Fin 12"
    "stackTraceLimit ex_world = Fin 10"
    by (simp_all add: config_object_def config_stackLength_def ex_world_def)
  have l: "\<exists>lines. capture ex_host (js_plus2 (config_stackLength (config_object VUndefined) (stackTraceLimit ex_world)))
     (frame_rootFactory # ex_frames) = Inr lines"
    by (simp add: ex_host_def v8_capture_def)
  from root_initializer_restores_depth [of ex_throwing_host VUndefined ex_world ex_frames] u c d
  have 1: "\<exists>w1. rootFactory ex_throwing_host ex_frames VUndefined ex_world = Inl (HostError, w1) \<and>
         stackTraceLimit w1 = Fin 12" by simp
  from root_initializer_restores_depth [of ex_host VUndefined ex_world ex_frames] l
  have "case rootFactory ex_host ex_frames VUndefined ex_world of
         Inr w' \<Rightarrow> stackTraceLimit w' = stackTraceLimit ex_world
       | Inl (e, w1) \<Rightarrow> stackTraceLimit w1 = stackTraceLimit ex_world" by blast
  then have 2: "case rootFactory ex_host ex_frames VUndefined ex_world of
         Inr w' \<Rightarrow> stackTraceLimit w' = Fin 10
       | Inl (e, w1) \<Rightarrow> stackTraceLimit w1 = Fin 10" unfolding d(2) .
  from u c 1 l 2 show ?thesis by blast
qed

section \<open>Properties of the plain call\<close>

lemma scrub_update:
  "scrub (AList.update k v al) = AList.update k (if k = ''stack'' then VUndefined else v) (scrub al)"
  by (induction al) (auto simp: scrub_def)

lemma map_of_scrub: "k \<noteq> ''stack'' \<Longrightarrow> map_of (scrub al) k = map_of al k"
  by (induction al) (auto simp: scrub_def)

lemma scrub_lookup: "scrub al = scrub bl \<Longrightarrow> k \<noteq> ''stack'' \<Longrightarrow> map_of al k = map_of bl k"
  by (metis map_of_scrub)

lemma same_instance_toString: "same_instance i j \<Longrightarrow> toString h i = toString h j"
proof (rule toString_cong)
  assume s: "same_instance i j"
  then show "CustomError_chain i = CustomError_chain j" by (simp add: same_instance_def)
  from s have c: "map_of (own i) ''code'' = map_of (own j) ''code''"
    and m: "map_of (own i) ''message'' = map_of (own j) ''message''"
    by (auto simp: same_instance_def intro: scrub_lookup)
  from s c show "get_code i = get_code j"
    by (simp add: get_code_def js_get_def same_instance_def)
  from s m show "get_message i = get_message j"
    by (simp add: get_message_def same_instance_def)
qed

lemma copy_key_same:
  assumes "scrub ow = scrub ov"
  shows "(\<exists>e. copy_key P k (c, m, ow) = Inl e \<and> copy_key P k (c, m, ov) = Inl e) \<or>
         (\<exists>c' m' ow' ov'. copy_key P k (c, m, ow) = Inr (c', m', ow') \<and>
              copy_key P k (c, m, ov) = Inr (c', m', ov') \<and> scrub ow' = scrub ov')"
  using assms by (auto simp: copy_key_def scrub_update)

lemma copy_fold_same:
  assumes "scrub ow = scrub ov"
  shows "(\<exists>e. fold (\<lambda>key r. case r of Inl e \<Rightarrow> Inl e | Inr st' \<Rightarrow> copy_key P key st') ks (Inr (c, m, ow)) = Inl e \<and>
              fold (\<lambda>key r. case r of Inl e \<Rightarrow> Inl e | Inr st' \<Rightarrow> copy_key P key st') ks (Inr (c, m, ov)) = Inl e) \<or>
         (\<exists>c' m' ow' ov'.
              fold (\<lambda>key r. case r of Inl e \<Rightarrow> Inl e | Inr st' \<Rightarrow> copy_key P key st') ks (Inr (c, m, ow)) = Inr (c', m', ow') \<and>
              fold (\<lambda>key r. case r of Inl e \<Rightarrow> Inl e | Inr st' \<Rightarrow> copy_key P key st') ks (Inr (c, m, ov)) = Inr (c', m', ov') \<and>
              scrub ow' = scrub ov')"
  using assms
proof (induction ks arbitrary: c m ow ov)
  case Nil
  then show ?case by simp
next
  case (Cons k ks)
  from copy_key_same [OF Cons.prems, of P k c m] show ?case
  proof (elim disjE exE conjE)
    fix e assume "copy_key P k (c, m, ow) = Inl e" "copy_key P k (c, m, ov) = Inl e"
    then show ?thesis by (simp add: copy_fold_Inl)
  next
    fix c' m' ow' ov'
    assume "copy_key P k (c, m, ow) = Inr (c', m', ow')" "copy_key P k (c, m, ov) = Inr (c', m', ov')"
      "scrub ow' = scrub ov'"
    with Cons.IH [of ow' ov' c' m'] show ?thesis by simp
  qed
qed

lemma updateStack_same:
  assumes "same_instance i j"
  shows "(\<exists>e. updateStack h i = Inl e \<and> updateStack h j = Inl e) \<or>
         (\<exists>i' j'. updateStack h i = Inr i' \<and> updateStack h j = Inr j' \<and> same_instance i' j')"
proof (cases "toString h i")
  case (Inl e)
  with same_instance_toString [OF assms, of h] have j: "toString h j = Inl e" by simp
  from Inl j show ?thesis
    by (simp add: updateStack_def)
next
  case (Inr s)
  with same_instance_toString [OF assms, of h] have j: "toString h j = Inr s" by simp
  have t: "take (Suc 0) (case xs of [] \<Rightarrow> [s] | l # ls \<Rightarrow> s # ls) = [s]" for xs :: "string list"
    by (cases xs) simp_all
  from Inr j assms show ?thesis
    by (simp add: updateStack_def Let_def same_instance_def scrub_update t)
qed

lemma rootFactory_same:
  assumes "capture h = v8_capture" "same_world w v"
  shows "same_result (rootFactory h f1 configuration w) (rootFactory h f2 configuration v)"
proof (cases "''hasOwnProperty'' \<in> set (js_keys (config_object configuration))")
  case True
  with assms(2) show ?thesis by (simp add: rootFactory_def Let_def same_result_def)
next
  case nh: False
  from assms(2) have p: "props v = props w" and l: "stackTraceLimit v = stackTraceLimit w"
    and si: "same_instance (inst w) (inst v)" by (simp_all add: same_world_def)
  then have so: "scrub (own (inst w)) = scrub (own (inst v))" by (simp add: same_instance_def)
  from copy_fold_same [OF so, of "props w" "js_keys (props w)" VUndefined "VStr []"]
  show ?thesis
  proof (elim disjE exE conjE)
    fix e
    assume "fold (\<lambda>key r. case r of Inl e \<Rightarrow> Inl e | Inr st' \<Rightarrow> copy_key (props w) key st')
              (js_keys (props w)) (Inr (VUndefined, VStr [], own (inst w))) = Inl e"
      "fold (\<lambda>key r. case r of Inl e \<Rightarrow> Inl e | Inr st' \<Rightarrow> copy_key (props w) key st')
              (js_keys (props w)) (Inr (VUndefined, VStr [], own (inst v))) = Inl e"
    with nh assms(2) p show ?thesis
      by (simp add: rootFactory_def Let_def same_result_def copy_properties_def)
  next
    fix c m ow ov
    assume cw: "fold (\<lambda>key r. case r of Inl e \<Rightarrow> Inl e | Inr st' \<Rightarrow> copy_key (props w) key st')
              (js_keys (props w)) (Inr (VUndefined, VStr [], own (inst w))) = Inr (c, m, ow)"
      and cv: "fold (\<lambda>key r. case r of Inl e \<Rightarrow> Inl e | Inr st' \<Rightarrow> copy_key (props w) key st')
              (js_keys (props w)) (Inr (VUndefined, VStr [], own (inst v))) = Inr (c, m, ov)"
      and s: "scrub ow = scrub ov"
    let ?d = "js_plus2 (config_stackLength (config_object configuration) (stackTraceLimit w))"
    let ?l1 = "''Error'' # frames_collected ?d (frame_rootFactory # f1)"
    let ?l2 = "''Error'' # frames_collected ?d (frame_rootFactory # f2)"
    let ?i1 = "(inst w)\<lparr>own := AList.update ''stack'' (VStr (js_join ([] # drop 3 ?l1))) ow,
                 stack_var := [] # drop 3 ?l1, code_var := c, messageStr := m, accessors := True\<rparr>"
    let ?i2 = "(inst v)\<lparr>own := AList.update ''stack'' (VStr (js_join ([] # drop 3 ?l2))) ov,
                 stack_var := [] # drop 3 ?l2, code_var := c, messageStr := m, accessors := True\<rparr>"
    have i12: "same_instance ?i1 ?i2"
      using si s by (simp add: same_instance_def scrub_update)
    note defs = rootFactory_def Let_def copy_properties_def assms(1) v8_capture_def
    from updateStack_same [OF i12, of h] show ?thesis
    proof (elim disjE exE conjE)
      fix e assume u: "updateStack h ?i1 = Inl e" "updateStack h ?i2 = Inl e"
      have "rootFactory h f1 configuration w = Inl (e, w\<lparr>inst := ?i1\<rparr>)"
        using nh cw u(1) by (simp add: defs)
      moreover have "rootFactory h f2 configuration v = Inl (e, v\<lparr>inst := ?i2\<rparr>)"
        using nh cv u(2) p l by (simp add: defs)
      ultimately show ?thesis
        using i12 p l by (simp add: same_result_def same_world_def)
    next
      fix i' j' assume u: "updateStack h ?i1 = Inr i'" "updateStack h ?i2 = Inr j'" "same_instance i' j'"
      have "rootFactory h f1 configuration w = Inr (w\<lparr>inst := i'\<rparr>)"
        using nh cw u(1) by (simp add: defs)
      moreover have "rootFactory h f2 configuration v = Inr (v\<lparr>inst := j'\<rparr>)"
        using nh cv u(2) p l by (simp add: defs)
      ultimately show ?thesis
        using u(3) p l by (simp add: same_result_def same_world_def)
    qed
  qed
qed

lemma same_world_refl: "same_world w w"
  by (simp add: same_world_def same_instance_def)

lemma call_factory_same:
  assumes "capture h = v8_capture" "frame_blind h" "same_world w v"
  shows "same_result (call_factory h f1 f configuration w) (call_factory h f2 f configuration v)"
proof (cases f)
  case VRootFactory
  then show ?thesis
    using rootFactory_same [OF assms(1,3)] by (simp add: call_factory_def)
next
  case (VUser k)
  then show ?thesis
    using assms(2,3) by (simp add: call_factory_def frame_blind_def)
qed (use assms(3) in \<open>simp_all add: call_factory_def same_result_def\<close>)

lemma call_factories_same:
  assumes "capture h = v8_capture" "frame_blind h"
  shows "same_world w v \<Longrightarrow>
    fst (call_factories h f1 configuration chain i (calls, w)) =
    fst (call_factories h f2 configuration chain i (calls, v)) \<and>
    same_result (snd (call_factories h f1 configuration chain i (calls, w)))
                (snd (call_factories h f2 configuration chain i (calls, v)))"
proof (induction i arbitrary: calls w v)
  case 0
  then show ?case by (simp add: same_result_def)
next
  case (Suc i)
  let ?f = "factory (chain ! i)"
  from Suc.prems have p: "props v = props w" by (simp add: same_world_def)
  show ?case
  proof (cases "?f = VNoop")
    case True
    with Suc show ?thesis by (simp add: Let_def)
  next
    case False
    from call_factory_same [OF assms Suc.prems, of f1 ?f configuration f2]
    show ?thesis
    proof (cases "call_factory h f1 ?f configuration w"; cases "call_factory h f2 ?f configuration v")
      fix a b
      assume a: "call_factory h f1 ?f configuration w = Inl a"
        and b: "call_factory h f2 ?f configuration v = Inl b"
        and r: "same_result (call_factory h f1 ?f configuration w) (call_factory h f2 ?f configuration v)"
      with False p show ?thesis by (simp add: Let_def)
    next
      fix w' v'
      assume a: "call_factory h f1 ?f configuration w = Inr w'"
        and b: "call_factory h f2 ?f configuration v = Inr v'"
        and r: "same_result (call_factory h f1 ?f configuration w) (call_factory h f2 ?f configuration v)"
      then have "same_world w' v'" by (simp add: same_result_def)
      from Suc.IH [OF this] a b False p show ?thesis by (simp add: Let_def)
    qed (simp_all add: same_result_def split: prod.splits)
  qed
qed

text \<open>
  A plain call of a constructor returns what \<open>new\<close> returns when it is made from the frame
  of the plain call.  Under the capture of V8 and with caller's functions that do not look at
  the captured frames, the plain call and the construction with \<open>new\<close> from the same place
  make the same factory calls and end alike, with instances that agree on own properties,
  chain, accessors, code, message and header line: they can differ in the captured frames
  only.
\<close>

lemma plain_call_same_but_frames:
  "construct h chain False message configuration frames limit =
     construct h chain True message configuration (frame_construct # frames) limit \<and>
   (capture h = v8_capture \<and> frame_blind h \<longrightarrow>
      fst (construct h chain False message configuration frames limit) =
        fst (construct h chain True message configuration frames limit) \<and>
      same_result (snd (construct h chain False message configuration frames limit))
                  (snd (construct h chain True message configuration frames limit)))"
proof (intro conjI impI)
  show "construct h chain False message configuration frames limit =
     construct h chain True message configuration (frame_construct # frames) limit"
    by (simp add: construct_def)
next
  assume a: "capture h = v8_capture \<and> frame_blind h"
  then have c: "capture h = v8_capture" and f: "frame_blind h" by simp_all
  note s = call_factories_same [OF c f same_world_refl]
  show "fst (construct h chain False message configuration frames limit) =
        fst (construct h chain True message configuration frames limit)"
    using s by (cases "prototype_kept chain message") (simp_all add: construct_def new_construct_def Let_def)
  show "same_result (snd (construct h chain False message configuration frames limit))
                  (snd (construct h chain True message configuration frames limit))"
    using s by (cases "prototype_kept chain message") (simp_all add: construct_def new_construct_def Let_def same_result_def same_world_refl)
qed

lemma ex_plain_call:
  "snd (construct ex_host (proto_chain ex_NotFoundError) False
          (VObj [(''code'', VStr ''E404''), (''message'', VStr ''missing'')])
          (VObj [(''stackLength'', VNum (Fin 1))]) [''    at main''] (Fin 10)) =
   Inr \<lparr>inst = \<lparr>own = [(''stack'', VStr (js_join [''Error E404: missing'', ''    at construct'']))],
                 CustomError_chain = proto_chain ex_NotFoundError, accessors = True,
                 code_var = VStr ''E404'', messageStr = VStr ''missing'',
                 stack_var = [''Error E404: missing'', ''    at construct'']\<rparr>,
         props = [(''code'', VStr ''E404''), (''message'', VStr ''missing'')],
         stackTraceLimit = Fin 10\<rparr>"
  by (simp add: ex_NotFoundError_value construct_def new_construct_def prototype_kept_def keeps_prototype_def build_props_def
      message_object_def Object_assign_def assign_one_def assign_key_def js_keys_def js_get_def call_factory_def
      rootFactory_def config_object_def config_stackLength_def copy_properties_def copy_key_def
      shadowing_def ex_host_def v8_capture_def frames_collected_def updateStack_def toString_def
      get_code_def get_message_def js_or_def numeral_2_eq_2 Let_def frame_rootFactory_def
      frame_new_construct_def frame_construct_def)

lemma ex_new_call:
  "snd (construct ex_host (proto_chain ex_NotFoundError) True
          (VObj [(''code'', VStr ''E404''), (''message'', VStr ''missing'')])
          (VObj [(''stackLength'', VNum (Fin 1))]) [''    at main''] (Fin 10)) =
   Inr \<lparr>inst = \<lparr>own = [(''stack'', VStr (js_join [''Error E404: missing'', ''    at main'']))],
                 CustomError_chain = proto_chain ex_NotFoundError, accessors = True,
                 code_var = VStr ''E404'', messageStr = VStr ''missing'',
                 stack_var = [''Error E404: missing'', ''    at main'']\<rparr>,
         props = [(''code'', VStr ''E404''), (''message'', VStr ''missing'')],
         stackTraceLimit = Fin 10\<rparr>"
  by (simp add: ex_NotFoundError_value construct_def new_construct_def prototype_kept_def keeps_prototype_def build_props_def
      message_object_def Object_assign_def assign_one_def assign_key_def js_keys_def js_get_def
      call_factory_def rootFactory_def config_object_def config_stackLength_def copy_properties_def
      copy_key_def shadowing_def ex_host_def v8_capture_def frames_collected_def updateStack_def
      toString_def get_code_def get_message_def js_or_def numeral_2_eq_2 Let_def
      frame_rootFactory_def frame_new_construct_def frame_construct_def)

text \<open>
  C8.  The code where it departs from the claim: called from \<open>main\<close> with
  \<open>stackLength = 1\<close>, the construction with \<open>new\<close> retains the caller's frame, the plain
  call retains the frame of \<open>construct\<close> itself (line 38) instead; lines 171 to 174 discard
  two frames of the module on either path.  The two instances differ in \<open>stack\<close>.
\<close>

theorem plain_call_keeps_own_frame:
  "(case (snd (construct ex_host (proto_chain ex_NotFoundError) True
                 (VObj [(''code'', VStr ''E404''), (''message'', VStr ''missing'')])
                 (VObj [(''stackLength'', VNum (Fin 1))]) [''    at main''] (Fin 10)),
          snd (construct ex_host (proto_chain ex_NotFoundError) False
                 (VObj [(''code'', VStr ''E404''), (''message'', VStr ''missing'')])
                 (VObj [(''stackLength'', VNum (Fin 1))]) [''    at main''] (Fin 10))) of
      (Inr v, Inr w) \<Rightarrow>
        stack_var (inst v) = [''Error E404: missing'', ''    at main''] \<and>
        stack_var (inst w) = [''Error E404: missing'', ''    at construct''] \<and>
        js_get (own (inst v)) ''stack'' \<noteq> js_get (own (inst w)) ''stack''
    | _ \<Rightarrow> False)"
  by (simp add: ex_new_call ex_plain_call js_get_def frame_construct_def)

section \<open>Properties of the store\<close>

lemma assign_h_frame: "a \<noteq> target \<Longrightarrow> cells (assign_h hp target source) a = cells hp a"
  by (simp add: assign_h_def split: option.splits)

lemma assign_h_next: "next_free (assign_h hp target source) = next_free hp"
  by (simp add: assign_h_def split: option.splits)

lemma assign_fold_frame:
  "a \<noteq> target \<Longrightarrow> cells (fold (\<lambda>source hp'. assign_h hp' target source) ar hp) a = cells hp a"
  by (induction ar arbitrary: hp) (simp_all add: assign_h_frame)

lemma assign_fold_next:
  "next_free (fold (\<lambda>source hp'. assign_h hp' target source) ar hp) = next_free hp"
  by (induction ar arbitrary: hp) (simp_all add: assign_h_next)

lemma message_object_h_frame:
  "message_object_h hp message = (m, hp1) \<Longrightarrow>
   next_free hp \<le> next_free hp1 \<and> (\<forall>a < next_free hp. cells hp1 a = cells hp a)"
  by (auto simp: message_object_h_def alloc_def split: href.splits if_splits)

lemma build_props_h_frame:
  assumes "build_props_h hp chain_properties message = (target, hp')"
  shows "next_free hp \<le> target" "target < next_free hp'" "next_free hp \<le> next_free hp'"
    "a < next_free hp \<Longrightarrow> cells hp' a = cells hp a"
proof -
  obtain m hp1 where m: "message_object_h hp message = (m, hp1)"
    by (cases "message_object_h hp message")
  note f = message_object_h_frame [OF m]
  from assms m have t: "target = next_free hp1"
    and h: "hp' = fold (\<lambda>source hp'. assign_h hp' target source) (map HRef (rev chain_properties) @ [m])
              (hp1\<lparr>cells := (cells hp1)(next_free hp1 \<mapsto> []), next_free := Suc (next_free hp1)\<rparr>)"
    by (auto simp: build_props_h_def alloc_def Let_def)
  from t f show "next_free hp \<le> target" by simp
  from h t show "target < next_free hp'" by (simp add: assign_fold_next assign_h_next)
  from h f show "next_free hp \<le> next_free hp'" by (simp add: assign_fold_next assign_h_next)
  assume a: "a < next_free hp"
  with t f have "a \<noteq> target" by simp
  then have "cells hp' a = cells (hp1\<lparr>cells := (cells hp1)(next_free hp1 \<mapsto> []), next_free := Suc (next_free hp1)\<rparr>) a"
    unfolding h by (rule assign_fold_frame)
  with a f t show "cells hp' a = cells hp a"
    by simp
qed

lemma constructions_frame:
  "next_free hp \<le> next_free (constructions hp requests) \<and>
   (\<forall>a < next_free hp. cells (constructions hp requests) a = cells hp a)"
proof (induction requests arbitrary: hp)
  case Nil
  then show ?case by (simp add: constructions_def)
next
  case (Cons r rs)
  obtain cp msg where r: "r = (cp, msg)" by (cases r)
  obtain t hp1 where b: "build_props_h hp cp msg = (t, hp1)" by (cases "build_props_h hp cp msg")
  have c: "constructions hp (r # rs) = constructions hp1 rs"
    by (simp add: constructions_def r b)
  from build_props_h_frame(3,4) [OF b] Cons.IH [of hp1] show ?case
    unfolding c by (metis (no_types, lifting) le_trans less_le_trans)
qed

lemma deref_assign_h:
  "(\<forall>a. r = HRef a \<longrightarrow> a \<noteq> target) \<Longrightarrow> deref (assign_h hp target source) r = deref hp r"
  by (cases r) (simp_all add: deref_def assign_h_frame)

lemma assign_fold_target:
  "cells hp target = Some obj \<Longrightarrow> (\<forall>a. HRef a \<in> set ar \<longrightarrow> a \<noteq> target) \<Longrightarrow>
   cells (fold (\<lambda>source hp'. assign_h hp' target source) ar hp) target =
     Some (Object_assign obj (map (deref hp) ar))"
proof (induction ar arbitrary: hp obj)
  case Nil
  then show ?case by (simp add: Object_assign_def)
next
  case (Cons s ar)
  let ?hp = "assign_h hp target s"
  have c: "cells ?hp target = Some (assign_one obj (deref hp s))"
    using Cons.prems(1) by (simp add: assign_h_def)
  have d: "map (deref ?hp) ar = map (deref hp) ar"
    using Cons.prems(2) by (intro map_cong refl deref_assign_h) auto
  from Cons.IH [OF c] Cons.prems(2) show ?case
    by (simp add: d Object_assign_def)
qed

lemma message_object_h_deref:
  assumes "message_object_h hp message = (m, hp1)" "heap_ok hp"
    and "\<forall>a. message = HRef a \<longrightarrow> a < next_free hp"
  shows "deref hp1 m = message_object (deref hp message)"
    and "\<forall>a. m = HRef a \<longrightarrow> a < next_free hp1"
proof -
  show "deref hp1 m = message_object (deref hp message)"
  proof (cases message)
    case (HRef a)
    with assms(2,3) obtain obj where "cells hp a = Some obj"
      by (auto simp: heap_ok_def)
    with HRef assms(1) show ?thesis
      by (auto simp: message_object_h_def deref_def message_object_def)
  next
    case (HPrim v)
    with assms(1) show ?thesis
      by (auto simp: message_object_h_def deref_def message_object_def alloc_def Let_def
          split: if_splits)
  qed
  show "\<forall>a. m = HRef a \<longrightarrow> a < next_free hp1"
    using assms(1,3)
    by (auto simp: message_object_h_def alloc_def split: href.splits if_splits)
qed

lemma build_props_h_content:
  assumes b: "build_props_h hp chain_properties message = (target, hp')"
    and ok: "heap_ok hp"
    and cp: "\<forall>a \<in> set chain_properties. a < next_free hp"
    and ms: "\<forall>a. message = HRef a \<longrightarrow> a < next_free hp"
    and ch: "map properties chain = map (\<lambda>a. deref hp (HRef a)) chain_properties"
  shows "cells hp' target = Some (build_props chain (message_object (deref hp message)))"
proof -
  obtain m hp1 where m: "message_object_h hp message = (m, hp1)"
    by (cases "message_object_h hp message")
  note f = message_object_h_frame [OF m]
  note d = message_object_h_deref [OF m ok ms]
  let ?hp2 = "hp1\<lparr>cells := (cells hp1)(next_free hp1 \<mapsto> []), next_free := Suc (next_free hp1)\<rparr>"
  let ?ar = "map HRef (rev chain_properties) @ [m]"
  from b m have t: "target = next_free hp1"
    and h: "hp' = fold (\<lambda>source hp'. assign_h hp' target source) ?ar ?hp2"
    by (auto simp: build_props_h_def alloc_def Let_def)
  have ne: "\<forall>a. HRef a \<in> set ?ar \<longrightarrow> a \<noteq> target"
    using cp f d(2) t by auto
  have "cells ?hp2 target = Some []" by (simp add: t)
  from assign_fold_target [OF this ne]
  have c: "cells hp' target = Some (Object_assign [] (map (deref ?hp2) ?ar))"
    unfolding h .
  have "deref ?hp2 r = deref hp1 r" if "\<forall>a. r = HRef a \<longrightarrow> a < next_free hp1" for r
    using that by (cases r) (auto simp: deref_def)
  moreover have "deref hp1 (HRef a) = deref hp (HRef a)" if "a < next_free hp" for a
    using that f by (simp add: deref_def)
  ultimately have "map (deref ?hp2) ?ar = map (\<lambda>a. deref hp (HRef a)) (rev chain_properties) @ [deref hp1 m]"
    using cp f d(2) by (auto simp: less_le_trans)
  also have "\<dots> = map properties (rev chain) @ [message_object (deref hp message)]"
    using ch d(1) by (simp add: rev_map [symmetric])
  finally show ?thesis
    using c by (simp add: build_props_def)
qed

text \<open>
  C9.  Building the merged properties (lines 50 to 57) writes only to objects it creates: every
  object that existed before the call, so every descriptor's default properties and an object
  passed as the message, holds afterwards what it held before, and this stays so after any
  number of constructions.  The merged properties are built in a new object, which ends up
  holding the merge of the values the shared objects had.
\<close>

theorem construction_leaves_shared_objects:
  assumes "build_props_h hp chain_properties message = (target, hp')"
  shows "(\<forall>a < next_free hp. cells hp' a = cells hp a) \<and>
         next_free hp \<le> target \<and>
         (\<forall>requests. \<forall>a < next_free hp. cells (constructions hp requests) a = cells hp a) \<and>
         (heap_ok hp \<and> (\<forall>a \<in> set chain_properties. a < next_free hp) \<and>
          (\<forall>a. message = HRef a \<longrightarrow> a < next_free hp) \<and>
          map properties chain = map (\<lambda>a. deref hp (HRef a)) chain_properties \<longrightarrow>
            cells hp' target = Some (build_props chain (message_object (deref hp message))))"
  using build_props_h_frame(1,4) [OF assms] constructions_frame [of hp]
    build_props_h_content [OF assms, of chain]
  by blast

lemma ex_heap_build:
  "build_props_h ex_heap [2, 1, 0] (HRef 3) =
     (4, ex_heap\<lparr>cells := (cells ex_heap)(4 \<mapsto> [(''x'', VNum (Fin 1)), (''y'', VNum (Fin 4)), (''z'', VNum (Fin 9))]),
                  next_free := 5\<rparr>)"
  by (simp add: build_props_h_def message_object_h_def alloc_def assign_h_def deref_def ex_heap_def
      assign_one_def assign_key_def js_keys_def js_get_def Let_def)

theorem construction_leaves_shared_objects_witness:
  "heap_ok ex_heap \<and> next_free ex_heap = 4 \<and>
   (\<exists>hp'. build_props_h ex_heap [2, 1, 0] (HRef 3) = (4, hp') \<and>
      cells hp' 0 = cells ex_heap 0 \<and> cells hp' 1 = cells ex_heap 1 \<and>
      cells hp' 2 = cells ex_heap 2 \<and> cells hp' 3 = cells ex_heap 3 \<and>
      cells hp' 4 = Some [(''x'', VNum (Fin 1)), (''y'', VNum (Fin 4)), (''z'', VNum (Fin 9))])"
proof -
  have ok: "heap_ok ex_heap"
    by (auto simp: heap_ok_def ex_heap_def split: if_splits)
  have n: "next_free ex_heap = 4" by (simp add: ex_heap_def)
  let ?hp' = "ex_heap\<lparr>cells := (cells ex_heap)(4 \<mapsto> [(''x'', VNum (Fin 1)), (''y'', VNum (Fin 4)), (''z'', VNum (Fin 9))]),
                  next_free := 5\<rparr>"
  from construction_leaves_shared_objects [OF ex_heap_build]
  have f: "\<forall>a < next_free ex_heap. cells ?hp' a = cells ex_heap a"
    by blast
  have "cells ?hp' 0 = cells ex_heap 0" "cells ?hp' 1 = cells ex_heap 1"
    "cells ?hp' 2 = cells ex_heap 2" "cells ?hp' 3 = cells ex_heap 3"
    using f n by simp_all
  moreover have "cells ?hp' 4 = Some [(''x'', VNum (Fin 1)), (''y'', VNum (Fin 4)), (''z'', VNum (Fin 9))]"
    by simp
  ultimately have "\<exists>hp'. build_props_h ex_heap [2, 1, 0] (HRef 3) = (4, hp') \<and>
      cells hp' 0 = cells ex_heap 0 \<and> cells hp' 1 = cells ex_heap 1 \<and>
      cells hp' 2 = cells ex_heap 2 \<and> cells hp' 3 = cells ex_heap 3 \<and>
      cells hp' 4 = Some [(''x'', VNum (Fin 1)), (''y'', VNum (Fin 4)), (''z'', VNum (Fin 9))]"
    using ex_heap_build by blast
  with ok n show ?thesis by blast
qed

section \<open>The merged properties of a constructed instance\<close>





end
